theory Spec2Isabelle
  imports Complex_Main "HOL-Library.Stream"
begin

section \<open>Tensors, randomness and the collaborators of the diffusion model\<close>

text \<open>
  The development embeds \<^verbatim>\<open>sparsity_network/sparsity_model.py\<close> (class
  \<^verbatim>\<open>SDFDiffusion\<close>). A sparse feature field is a tensor of shape (rows, channels): a
  list of rows, each a list of channel values. Tensor entries are real numbers: rounding,
  infinities and NaN of the floating-point tensors are outside the model, with two
  exceptions: the sampling times, which \<open>linspace\<close> computes with every operation rounded
  to single precision, and the NaN that the mean of an empty selection produces, which
  \<open>tensor_mean\<close> returns as \<open>None\<close>.
\<close>

type_synonym tensor1 = "real list"
type_synonym tensor2 = "real list list"

definition shape :: "tensor2 \<Rightarrow> nat list" where
  "shape x = map length x"

text \<open>A tensor of shape (rows, c): every row holds \<open>c\<close> channels.\<close>

definition is_tensor :: "nat \<Rightarrow> tensor2 \<Rightarrow> bool" where
  "is_tensor c x = list_all (\<lambda>r. length r = c) x"

text \<open>Elementwise operations on one tensor, and on two tensors of one shape.\<close>

definition tmap :: "(real \<Rightarrow> real) \<Rightarrow> tensor2 \<Rightarrow> tensor2" where
  "tmap f x = map (map f) x"

definition tmap2 :: "(real \<Rightarrow> real \<Rightarrow> real) \<Rightarrow> tensor2 \<Rightarrow> tensor2 \<Rightarrow> tensor2" where
  "tmap2 f x y = map2 (map2 f) x y"

text \<open>\<^verbatim>\<open>x.clamp_(lo, hi)\<close>: \<open>min (max v lo) hi\<close> on every entry.\<close>

definition clamp_inplace :: "real \<Rightarrow> real \<Rightarrow> tensor2 \<Rightarrow> tensor2" where
  "clamp_inplace lo hi x = tmap (\<lambda>v. min (max v lo) hi) x"

text \<open>\<^verbatim>\<open>torch.special.expm1\<close>.\<close>

definition expm1 :: "real \<Rightarrow> real" where
  "expm1 x = exp x - 1"

definition sigmoid :: "real \<Rightarrow> real" where
  "sigmoid x = 1 / (1 + exp (- x))"

text \<open>
  Modelled from the spec: \<^verbatim>\<open>log_snr_to_alpha_sigma\<close> lives in
  \<^verbatim>\<open>network/model_utils.py\<close>, which is not among the sources. The spec (4.1) gives it as
  \<open>alpha = sqrt(sigmoid(log_snr))\<close>, \<open>sigma = sqrt(sigmoid(-log_snr))\<close>.
\<close>

definition log_snr_to_alpha_sigma :: "real \<Rightarrow> real \<times> real" where
  "log_snr_to_alpha_sigma l = (sqrt (sigmoid l), sqrt (sigmoid (- l)))"

text \<open>The errors the embedded code raises.\<close>

datatype error =
    ValueError string
  | IndexError
  | RuntimeError

text \<open>
  The random generator is explicit state: the values its future draws return, one stream
  for \<^verbatim>\<open>uniform_(0, 1)\<close> and one for the standard Gaussian draws of
  \<^verbatim>\<open>torch.randn_like\<close>. A draw returns the next values and the advanced generator.
\<close>

record rng =
  uniform_src :: "real stream"
  normal_src :: "real stream"

definition uniform_inplace :: "nat \<Rightarrow> rng \<Rightarrow> tensor1 \<times> rng" where
  "uniform_inplace n g = (stake n (uniform_src g), g\<lparr>uniform_src := sdrop n (uniform_src g)\<rparr>)"

text \<open>Filling rows of the given lengths from a stream, in row-major order.\<close>

fun fill_rows :: "nat list \<Rightarrow> real stream \<Rightarrow> tensor2 \<times> real stream" where
  "fill_rows [] s = ([], s)"
| "fill_rows (n # ns) s =
     (let (rows, s') = fill_rows ns (sdrop n s) in (stake n s # rows, s'))"

definition randn_like :: "tensor2 \<Rightarrow> rng \<Rightarrow> tensor2 \<times> rng" where
  "randn_like x g =
     (let (noise, s) = fill_rows (shape x) (normal_src g) in (noise, g\<lparr>normal_src := s\<rparr>))"

text \<open>
  The octree handle: \<^verbatim>\<open>octree.batch_size\<close>, \<^verbatim>\<open>octree.depth\<close> and
  \<^verbatim>\<open>octree.batch_id(depth, nempty)\<close>, the batch index of every node of a level.
\<close>

record octree =
  batch_size :: nat
  depth :: nat
  batch_id :: "nat \<Rightarrow> bool \<Rightarrow> nat list"

text \<open>
  The denoising network is an opaque function of the noisy field, the noise levels, the
  octree and the self-condition argument (\<open>None\<close> where the caller passes \<^verbatim>\<open>None\<close>
  or leaves it out). It returns a new tensor, so that clamping its result in place leaves
  the field it was given untouched.
\<close>

type_synonym denoiser = "tensor2 \<Rightarrow> tensor1 \<Rightarrow> octree \<Rightarrow> tensor2 option \<Rightarrow> tensor2"

record SDFDiffusion =
  base_size :: int
  upfactor :: int
  eps :: real
  verbose :: bool
  sdf_clip_value :: real
  log_snr :: "real \<Rightarrow> real"
  denoise_fn :: denoiser

section \<open>Construction\<close>

text \<open>
  \<^verbatim>\<open>SDFDiffusion.__init__\<close>. The two schedule functions
  \<^verbatim>\<open>beta_linear_log_snr\<close> and \<^verbatim>\<open>alpha_cosine_log_snr\<close> and the constructor
  \<^verbatim>\<open>Sparsity_UNetModel\<close> are imported from modules that are not among the sources; they
  are parameters here. The schedule is chosen before the network is built.
\<close>

definition init ::
  "(real \<Rightarrow> real) \<Rightarrow> (real \<Rightarrow> real) \<Rightarrow> (int \<Rightarrow> int \<Rightarrow> int \<Rightarrow> int \<Rightarrow> bool \<Rightarrow> denoiser) \<Rightarrow>
   int \<Rightarrow> int \<Rightarrow> int \<Rightarrow> bool \<Rightarrow> real \<Rightarrow> string \<Rightarrow> real \<Rightarrow> error + SDFDiffusion" where
  "init beta_linear_log_snr alpha_cosine_log_snr Sparsity_UNetModel
        base_size' upfactor' base_channels verbose' eps' noise_schedule sdf_clip_value' =
     (case (if noise_schedule = ''linear'' then Inr beta_linear_log_snr
            else if noise_schedule = ''cosine'' then Inr alpha_cosine_log_snr
            else Inl (ValueError (''invalid noise schedule '' @ noise_schedule))) of
        Inl e \<Rightarrow> Inl e
      | Inr schedule \<Rightarrow>
          Inr \<lparr> base_size = base_size', upfactor = upfactor', eps = eps', verbose = verbose',
                sdf_clip_value = sdf_clip_value', log_snr = schedule,
                denoise_fn = Sparsity_UNetModel base_channels base_size' upfactor' 1 verbose' \<rparr>)"

section \<open>Timestep scheduler\<close>

text \<open>
  Single precision. A tensor of the default type holds binary32 numbers, and every
  operation on them returns the exact result rounded to the nearest such number, ties to
  the even significand. \<open>fl32\<close> is that rounding: the spacing of the binary32 numbers
  around \<open>x\<close> is \<open>ulp32 x\<close>, 24 significant bits above the exponent of \<open>x\<close> and no finer
  than the subnormal spacing; the magnitude is rounded to a whole number of such steps.
  Overflow to infinity is left out: the sampling times lie between 0 and 1.
\<close>

definition rne :: "real \<Rightarrow> int" where
  "rne y =
     (let f = \<lfloor>y\<rfloor>
      in if y - of_int f < 1 / 2 then f
         else if 1 / 2 < y - of_int f then f + 1
         else if even f then f else f + 1)"

definition float_exp :: "real \<Rightarrow> int" where
  "float_exp x = max \<lfloor>log 2 \<bar>x\<bar>\<rfloor> (- 126)"

definition ulp32 :: "real \<Rightarrow> real" where
  "ulp32 x = 2 powr (of_int (float_exp x) - 23)"

definition fl32 :: "real \<Rightarrow> real" where
  "fl32 x = (if x = 0 then 0 else sgn x * (of_int (rne (\<bar>x\<bar> / ulp32 x)) * ulp32 x))"

text \<open>
  \<^verbatim>\<open>torch.linspace(start, stop, steps)\<close> in single precision, in the scalar form of
  its kernel: a single value is \<open>start\<close>; otherwise the step is \<open>(stop - start) / (steps - 1)\<close>,
  the entries of the first half are \<open>start + step * idx\<close> and those of the second half
  \<open>stop - step * (steps - idx - 1)\<close>, so that the last entry is \<open>stop\<close> itself. The
  count is a natural number: a negative count, for which \<^verbatim>\<open>torch.linspace\<close> raises, is
  not an input of the model.
\<close>

definition linspace :: "real \<Rightarrow> real \<Rightarrow> nat \<Rightarrow> real list" where
  "linspace start stop steps =
     (if steps = 1 then [fl32 start]
      else (let start = fl32 start;
                stop = fl32 stop;
                step = fl32 (fl32 (stop - start) / fl32 (real (steps - 1)));
                halfway = steps div 2
            in map (\<lambda>idx. if idx < halfway
                           then fl32 (start + fl32 (step * fl32 (real idx)))
                           else fl32 (stop - fl32 (step * fl32 (real (steps - idx - 1)))))
                 [0..<steps]))"

text \<open>
  \<^verbatim>\<open>get_sampling_timesteps\<close>: the times are repeated over the batch (shape (b, steps+1)),
  the columns but the last and the columns but the first are stacked (shape (2, b, steps)),
  and unbinding the last dimension gives one tensor of shape (2, b) per step, which the
  samplers' loops unpack into \<open>time\<close> and \<open>time_next\<close>, each of shape (b).
\<close>

definition get_sampling_timesteps :: "nat \<Rightarrow> nat \<Rightarrow> (tensor1 \<times> tensor1) list" where
  "get_sampling_timesteps batch steps =
     (let times = linspace 1 0 (steps + 1);
          times = replicate batch times;
          heads = map butlast times;
          tails = map tl times
      in map (\<lambda>k. (map (\<lambda>row. row ! k) heads, map (\<lambda>row. row ! k) tails)) [0..<steps])"

text \<open>The value of a tensor with one element, as broadcasting and \<^verbatim>\<open>if\<close> read it.\<close>

definition item :: "tensor1 \<Rightarrow> real" where
  "item t = hd t"

text \<open>\<^verbatim>\<open>tqdm\<close> wraps the iteration in a progress bar and yields the same elements.\<close>

definition tqdm :: "'a list \<Rightarrow> 'a list" where
  "tqdm xs = xs"

section \<open>Reverse samplers\<close>

text \<open>
  One pass of the body of the loop of \<^verbatim>\<open>ddpm_sample\<close>, up to the posterior mean (a
  field) and the posterior variance (a one-element tensor, here its value). \<open>time\<close> and
  \<open>time_next\<close> are the values of the one-element tensors of the step.
\<close>

definition ddpm_mean_variance ::
  "SDFDiffusion \<Rightarrow> tensor2 \<Rightarrow> octree \<Rightarrow> real \<Rightarrow> real \<Rightarrow> tensor2 \<times> real" where
  "ddpm_mean_variance M noise_feature oct time time_next =
     (let log_snr_t = log_snr M time;
          log_snr_next = log_snr M time_next;
          (alpha, sigma) = log_snr_to_alpha_sigma log_snr_t;
          (alpha_next, sigma_next) = log_snr_to_alpha_sigma log_snr_next;
          x_start = denoise_fn M noise_feature [log_snr_t] oct None;
          x_start = clamp_inplace (- 1) 1 x_start;
          c = - expm1 (log_snr_t - log_snr_next);
          mean = tmap2 (\<lambda>n x. alpha_next * (n * (1 - c) / alpha + c * x)) noise_feature x_start;
          variance = sigma_next\<^sup>2 * c
      in (mean, variance))"

definition ddpm_step ::
  "SDFDiffusion \<Rightarrow> octree \<Rightarrow> real \<Rightarrow> real \<Rightarrow> real \<Rightarrow> tensor2 \<times> rng \<Rightarrow> tensor2 \<times> rng" where
  "ddpm_step M oct truncated_index time time_next st =
     (let (noise_feature, g) = st;
          (mean, variance) = ddpm_mean_variance M noise_feature oct time time_next
      in if time_next > truncated_index
         then (let (noise, g') = randn_like noise_feature g
               in (tmap2 (\<lambda>m n. m + sqrt variance * n) mean noise, g'))
         else (mean, g))"

definition ddpm_sample ::
  "SDFDiffusion \<Rightarrow> tensor2 \<Rightarrow> octree \<Rightarrow> nat \<Rightarrow> real \<Rightarrow> bool \<Rightarrow> rng \<Rightarrow> tensor2 \<times> rng" where
  "ddpm_sample M noise_feature oct steps truncated_index verbose' g =
     (let time_pairs = get_sampling_timesteps 1 steps;
          loops = (if verbose' then tqdm time_pairs else time_pairs)
      in fold (\<lambda>(time, time_next). ddpm_step M oct truncated_index (item time) (item time_next))
           loops (noise_feature, g))"

text \<open>
  The body of the loop of \<^verbatim>\<open>ddim_sample\<close>. It draws nothing: the generator is
  handed on as it came.
\<close>

definition ddim_step ::
  "SDFDiffusion \<Rightarrow> octree \<Rightarrow> real \<Rightarrow> real \<Rightarrow> tensor2 \<times> rng \<Rightarrow> tensor2 \<times> rng" where
  "ddim_step M oct time time_next st =
     (let (noise_feature, g) = st;
          log_snr_t = log_snr M time;
          log_snr_next = log_snr M time_next;
          (alpha, sigma) = log_snr_to_alpha_sigma log_snr_t;
          (alpha_next, sigma_next) = log_snr_to_alpha_sigma log_snr_next;
          x_start = denoise_fn M noise_feature [log_snr_t] oct None;
          x_start = clamp_inplace (- 1) 1 x_start;
          pred_noise = tmap2 (\<lambda>n x. (n - alpha * x) / max sigma (1 / 10 ^ 8)) noise_feature x_start;
          noise_feature = tmap2 (\<lambda>x p. x * alpha_next + p * sigma_next) x_start pred_noise
      in (noise_feature, g))"

definition ddim_sample ::
  "SDFDiffusion \<Rightarrow> tensor2 \<Rightarrow> octree \<Rightarrow> nat \<Rightarrow> real \<Rightarrow> bool \<Rightarrow> rng \<Rightarrow> tensor2 \<times> rng" where
  "ddim_sample M noise_feature oct steps truncated_index verbose' g =
     (let time_pairs = get_sampling_timesteps 1 steps;
          loops = (if verbose' then tqdm time_pairs else time_pairs)
      in fold (\<lambda>(time, time_next). ddim_step M oct (item time) (item time_next))
           loops (noise_feature, g))"

text \<open>\<^verbatim>\<open>sample\<close>: initial noise shaped like \<open>data\<close>, then one of the two samplers.\<close>

definition sample ::
  "SDFDiffusion \<Rightarrow> tensor2 \<Rightarrow> octree \<Rightarrow> bool \<Rightarrow> nat \<Rightarrow> real \<Rightarrow> bool \<Rightarrow> rng \<Rightarrow> tensor2 \<times> rng" where
  "sample M data oct use_ddim steps truncated_index verbose' g =
     (let (noise_feature, g') = randn_like data g;
          sample_fn = (if \<not> use_ddim then ddpm_sample M else ddim_sample M)
      in sample_fn noise_feature oct steps truncated_index verbose' g')"

section \<open>Training loss\<close>

text \<open>
  \<^verbatim>\<open>x[mask]\<close> with a boolean mask over the rows: the rows whose mask entry is true, in
  their order; a mask of another length than the row count raises IndexError.
\<close>

definition mask_rows :: "'a list \<Rightarrow> bool list \<Rightarrow> error + 'a list" where
  "mask_rows x msk =
     (if length msk = length x then Inr (map fst (filter snd (zip x msk)))
      else Inl IndexError)"

text \<open>\<^verbatim>\<open>torch.cat(blocks, dim=0)\<close>: an empty list of tensors raises.\<close>

definition cat :: "tensor2 list \<Rightarrow> error + tensor2" where
  "cat blocks = (if blocks = [] then Inl RuntimeError else Inr (concat blocks))"

text \<open>\<^verbatim>\<open>x.mean()\<close> over all entries; the mean of no entry is NaN, here \<open>None\<close>.\<close>

definition tensor_mean :: "tensor2 \<Rightarrow> real option" where
  "tensor_mean x =
     (let xs = concat x in if xs = [] then None else Some (sum_list xs / real (length xs)))"

text \<open>
  The first loop of \<^verbatim>\<open>training_loss\<close> (forward corruption), over the batch indices
  still to do: the noised block of every batch element, in batch order, each with noise
  drawn when its turn comes.
\<close>

fun corrupt_loop ::
  "tensor2 \<Rightarrow> nat list \<Rightarrow> tensor1 \<Rightarrow> nat list \<Rightarrow> rng \<Rightarrow> error + (tensor2 list \<times> rng)" where
  "corrupt_loop x_start bid noise_level [] g = Inr ([], g)"
| "corrupt_loop x_start bid noise_level (i # is) g =
     (case mask_rows x_start (map (\<lambda>b. b = i) bid) of
        Inl e \<Rightarrow> Inl e
      | Inr feature \<Rightarrow>
          (let (alpha, sigma) = log_snr_to_alpha_sigma (noise_level ! i);
               (noise, g') = randn_like feature g;
               block = tmap2 (\<lambda>f n. f * alpha + sigma * n) feature noise
           in case corrupt_loop x_start bid noise_level is g' of
                Inl e \<Rightarrow> Inl e
              | Inr (blocks, g'') \<Rightarrow> Inr (block # blocks, g'')))"

text \<open>
  Lines 45 to 57 of the source: the sampled times, their noise levels and the corrupted
  field \<open>x_t\<close>.
\<close>

definition forward_corruption ::
  "SDFDiffusion \<Rightarrow> tensor2 \<Rightarrow> octree \<Rightarrow> rng \<Rightarrow> error + (tensor2 \<times> tensor1 \<times> rng)" where
  "forward_corruption M x_start oct g =
     (let b = batch_size oct;
          (times, g1) = uniform_inplace b g;
          noise_level = map (log_snr M) times;
          bid = batch_id oct (depth oct) True
      in case corrupt_loop x_start bid noise_level [0..<b] g1 of
           Inl e \<Rightarrow> Inl e
         | Inr (blocks, g2) \<Rightarrow>
             (case cat blocks of
                Inl e \<Rightarrow> Inl e
              | Inr x_t \<Rightarrow> Inr (x_t, noise_level, g2)))"

text \<open>The second loop: one mean per batch element, written into a tensor of \<open>b\<close> entries.\<close>

fun loss_loop :: "tensor2 \<Rightarrow> nat list \<Rightarrow> nat list \<Rightarrow> error + real option list" where
  "loss_loop sdf_loss bid [] = Inr []"
| "loss_loop sdf_loss bid (i # is) =
     (case mask_rows sdf_loss (map (\<lambda>b. b = i) bid) of
        Inl e \<Rightarrow> Inl e
      | Inr sel \<Rightarrow>
          (case loss_loop sdf_loss bid is of
             Inl e \<Rightarrow> Inl e
           | Inr rest \<Rightarrow> Inr (tensor_mean sel # rest)))"

definition training_loss ::
  "SDFDiffusion \<Rightarrow> tensor2 \<Rightarrow> octree \<Rightarrow> rng \<Rightarrow> error + (real option list \<times> rng)" where
  "training_loss M x_start oct g =
     (case forward_corruption M x_start oct g of
        Inl e \<Rightarrow> Inl e
      | Inr (x_t, noise_level, g') \<Rightarrow>
          (let pred = denoise_fn M x_t noise_level oct None;
               sdf_loss = tmap2 (\<lambda>p x. (p - x)\<^sup>2) pred x_start;
               bid = batch_id oct (depth oct) True
           in case loss_loop sdf_loss bid [0..<batch_size oct] of
                Inl e \<Rightarrow> Inl e
              | Inr loss \<Rightarrow> Inr (loss, g')))"

section \<open>Forward corruption row by row\<close>

text \<open>
  The reading of forward corruption that the specification gives (4.2), written on its own
  to be compared with the code: every row of \<open>x_start\<close>, in the order of \<open>x_start\<close>, is
  noised with the \<open>alpha\<close> and \<open>sigma\<close> of the batch element it belongs to and with the
  row of a standard Gaussian field of the shape of \<open>x_start\<close> that lies at its place.
  \<open>noise_rows\<close> is the formula for given rows, batch indices and noise.
\<close>

definition noise_rows :: "tensor1 \<Rightarrow> tensor2 \<Rightarrow> nat list \<Rightarrow> tensor2 \<Rightarrow> tensor2" where
  "noise_rows noise_level x bid noise =
     map (\<lambda>(feature, i, noise_row).
            (let (alpha, sigma) = log_snr_to_alpha_sigma (noise_level ! i)
             in map2 (\<lambda>f n. f * alpha + sigma * n) feature noise_row))
       (zip x (zip bid noise))"

definition rowwise_corruption :: "SDFDiffusion \<Rightarrow> tensor2 \<Rightarrow> octree \<Rightarrow> rng \<Rightarrow> tensor2" where
  "rowwise_corruption M x_start oct g =
     (let times = stake (batch_size oct) (uniform_src g);
          noise_level = map (log_snr M) times;
          bid = batch_id oct (depth oct) True;
          noise = fst (randn_like x_start g)
      in noise_rows noise_level x_start bid noise)"

text \<open>
  Two functions for the proofs. \<open>grouped b zs\<close> lists the rows \<open>zs\<close>, each tagged with
  its batch index, batch element by batch element, as the loop of the code visits them;
  \<open>corrupt_rows\<close> noises tagged rows one after the other with successive draws.
\<close>

definition grouped :: "nat \<Rightarrow> ('a \<times> nat) list \<Rightarrow> ('a \<times> nat) list" where
  "grouped b zs = concat (map (\<lambda>i. filter (\<lambda>z. snd z = i) zs) [0..<b])"

fun corrupt_rows :: "tensor1 \<Rightarrow> (real list \<times> nat) list \<Rightarrow> real stream \<Rightarrow> tensor2 \<times> real stream" where
  "corrupt_rows nl [] s = ([], s)"
| "corrupt_rows nl (z # zs) s =
     (map2 (\<lambda>f n. f * fst (log_snr_to_alpha_sigma (nl ! snd z))
                    + snd (log_snr_to_alpha_sigma (nl ! snd z)) * n)
           (fst z) (stake (length (fst z)) s)
        # fst (corrupt_rows nl zs (sdrop (length (fst z)) s)),
      snd (corrupt_rows nl zs (sdrop (length (fst z)) s)))"

section \<open>Sample inputs\<close>

text \<open>
  A model, octrees and a generator on which the theorems below are run. The schedule falls
  from a log-SNR of 10 at time 0 to -10 at time 1; the network halves its input.
\<close>

definition example_schedule :: "real \<Rightarrow> real" where
  "example_schedule t = 10 - 20 * t"

definition example_denoiser :: denoiser where
  "example_denoiser x l oct c = tmap (\<lambda>v. v / 2) x"

definition example_model :: SDFDiffusion where
  "example_model =
     \<lparr> base_size = 32, upfactor = 2, eps = 1 / 10 ^ 6, verbose = False,
       sdf_clip_value = 5 / 100, log_snr = example_schedule, denoise_fn = example_denoiser \<rparr>"

text \<open>
  Two shapes of one node each, in batch order; and two shapes whose nodes interleave, the
  first shape owning the first and the third node.
\<close>

definition example_octree :: octree where
  "example_octree = \<lparr> batch_size = 2, depth = 5, batch_id = (\<lambda>d nempty. [0, 1]) \<rparr>"

definition interleaved_octree :: octree where
  "interleaved_octree = \<lparr> batch_size = 2, depth = 5, batch_id = (\<lambda>d nempty. [0, 1, 0]) \<rparr>"

definition example_rng :: rng where
  "example_rng = \<lparr> uniform_src = sconst (1 / 2), normal_src = sconst 0 \<rparr>"

section \<open>Tensors and random draws\<close>

lemma shape_eq_length: "shape x = shape y \<Longrightarrow> length x = length y"
  unfolding shape_def by (rule map_eq_imp_length_eq)

lemma shape_eq_row: "shape x = shape y \<Longrightarrow> r < length x \<Longrightarrow> length (x ! r) = length (y ! r)"
proof -
  assume a: "shape x = shape y" and r: "r < length x"
  have "map length x ! r = map length y ! r" using a by (simp add: shape_def)
  then show ?thesis using r shape_eq_length [OF a] by simp
qed

lemma tmap2_nth:
  "r < length x \<Longrightarrow> r < length y \<Longrightarrow> j < length (x ! r) \<Longrightarrow> j < length (y ! r) \<Longrightarrow>
   tmap2 f x y ! r ! j = f (x ! r ! j) (y ! r ! j)"
  by (simp add: tmap2_def)

lemma shape_tmap2: "shape x = shape y \<Longrightarrow> shape (tmap2 f x y) = shape x"
proof -
  assume a: "shape x = shape y"
  have len: "length x = length y" by (rule shape_eq_length [OF a])
  show ?thesis
    unfolding shape_def tmap2_def
    by (rule nth_equalityI) (use len shape_eq_row [OF a] in simp_all)
qed

lemma shape_tmap: "shape (tmap f x) = shape x"
  by (simp add: shape_def tmap_def)

lemma tmap_nth: "r < length x \<Longrightarrow> j < length (x ! r) \<Longrightarrow> tmap f x ! r ! j = f (x ! r ! j)"
  by (simp add: tmap_def)

lemma fill_rows_shape: "shape (fst (fill_rows ns s)) = ns"
  by (induction ns arbitrary: s) (simp_all add: shape_def split_def Let_def)

lemma fill_rows_concat: "concat (fst (fill_rows ns s)) = stake (sum_list ns) s"
  by (induction ns arbitrary: s) (simp_all add: split_def Let_def)

lemma fill_rows_rest: "snd (fill_rows ns s) = sdrop (sum_list ns) s"
  by (induction ns arbitrary: s) (simp_all add: split_def Let_def add.commute)

lemma randn_like_shape: "shape (fst (randn_like x g)) = shape x"
  by (simp add: randn_like_def split_def Let_def fill_rows_shape)

lemma randn_like_values:
  "concat (fst (randn_like x g)) = stake (sum_list (shape x)) (normal_src g)"
  by (simp add: randn_like_def split_def Let_def fill_rows_concat)

lemma randn_like_rest:
  "snd (randn_like x g) = g\<lparr>normal_src := sdrop (sum_list (shape x)) (normal_src g)\<rparr>"
  by (simp add: randn_like_def split_def Let_def fill_rows_rest)

lemma randn_like_cong: "shape x = shape y \<Longrightarrow> randn_like x g = randn_like y g"
  by (simp add: randn_like_def)

lemma alpha_pos: "0 < fst (log_snr_to_alpha_sigma l)"
  by (simp add: log_snr_to_alpha_sigma_def sigmoid_def add_pos_pos)

lemma sigma_pos: "0 < snd (log_snr_to_alpha_sigma l)"
  by (simp add: log_snr_to_alpha_sigma_def sigmoid_def add_pos_pos)

section \<open>Construction: the noise schedule is checked at once\<close>

text \<open>
  Claim C8. Constructing the model with noise schedule "linear" gives a model whose log-SNR
  function is the linear one, "cosine" gives the cosine one, and any other string makes
  the construction itself return the ValueError: a model that has been constructed has one
  of the two schedules, so no later call meets an unknown schedule.
\<close>

theorem init_noise_schedule:
  "(\<exists>M. init bl ac unet bs uf bc v e ''linear'' cv = Inr M \<and> log_snr M = bl) \<and>
   (\<exists>M. init bl ac unet bs uf bc v e ''cosine'' cv = Inr M \<and> log_snr M = ac) \<and>
   (s \<noteq> ''linear'' \<longrightarrow> s \<noteq> ''cosine'' \<longrightarrow>
      init bl ac unet bs uf bc v e s cv = Inl (ValueError (''invalid noise schedule '' @ s))) \<and>
   (\<forall>M. init bl ac unet bs uf bc v e s cv = Inr M \<longrightarrow> s = ''linear'' \<or> s = ''cosine'')"
  by (simp add: init_def)

theorem init_noise_schedule_witness:
  "''quadratic'' \<noteq> ''linear'' \<and> ''quadratic'' \<noteq> ''cosine'' \<and>
   init example_schedule example_schedule (\<lambda>a b c d e. example_denoiser)
        32 2 128 False (1 / 10 ^ 6) ''quadratic'' (5 / 100)
     = Inl (ValueError ''invalid noise schedule quadratic'')"
  using init_noise_schedule [of example_schedule example_schedule
          "\<lambda>a b c d e. example_denoiser" 32 2 128 False "1 / 10 ^ 6" "5 / 100" "''quadratic''"]
  by simp

section \<open>Single precision and the timestep scheduler\<close>

lemma rne_err: "\<bar>of_int (rne y) - y\<bar> \<le> 1 / 2"
proof -
  have "of_int \<lfloor>y\<rfloor> \<le> y" "y < of_int \<lfloor>y\<rfloor> + 1" by linarith+
  then show ?thesis unfolding rne_def Let_def by (auto simp: abs_le_iff)
qed

lemma rne_of_int: "rne (of_int k) = k"
  by (simp add: rne_def)

lemma rne_nonneg: "0 \<le> y \<Longrightarrow> 0 \<le> rne y"
  unfolding rne_def Let_def by (auto simp: zero_le_floor)

lemma ulp32_pos: "0 < ulp32 x"
  by (simp add: ulp32_def)

lemma fl32_zero: "fl32 0 = 0"
  by (simp add: fl32_def)

lemma fl32_minus: "fl32 (- x) = - fl32 x"
  by (simp add: fl32_def ulp32_def float_exp_def sgn_if)

lemma fl32_sign: "(0 \<le> x \<longrightarrow> 0 \<le> fl32 x) \<and> (x \<le> 0 \<longrightarrow> fl32 x \<le> 0)"
proof -
  have "0 \<le> of_int (rne (\<bar>x\<bar> / ulp32 x)) * ulp32 x"
    using rne_nonneg [of "\<bar>x\<bar> / ulp32 x"] ulp32_pos [of x] by simp
  then show ?thesis by (auto simp: fl32_def sgn_if mult_le_0_iff)
qed

lemma fl32_err_ulp: "\<bar>fl32 x - x\<bar> \<le> ulp32 x / 2"
proof (cases "x = 0")
  case True
  then show ?thesis using ulp32_pos [of x] by (simp add: fl32_def)
next
  case False
  let ?u = "ulp32 x"
  let ?r = "real_of_int (rne (\<bar>x\<bar> / ?u))"
  have u: "0 < ?u" by (rule ulp32_pos)
  have "fl32 x - x = sgn x * (?r * ?u - \<bar>x\<bar>)"
    using False by (simp add: fl32_def sgn_if algebra_simps)
  then have "\<bar>fl32 x - x\<bar> = \<bar>?r * ?u - \<bar>x\<bar>\<bar>"
    using False by (simp add: abs_mult sgn_if)
  also have "?r * ?u - \<bar>x\<bar> = (?r - \<bar>x\<bar> / ?u) * ?u"
    using u by (simp add: algebra_simps)
  also have "\<bar>(?r - \<bar>x\<bar> / ?u) * ?u\<bar> = \<bar>?r - \<bar>x\<bar> / ?u\<bar> * ?u"
    using u by (simp add: abs_mult)
  also have "\<dots> \<le> (1 / 2) * ?u"
    using rne_err [of "\<bar>x\<bar> / ?u"] u by (intro mult_right_mono) simp_all
  finally show ?thesis by simp
qed

lemma float_exp_small: assumes "x \<noteq> 0" "\<bar>x\<bar> < 1" shows "float_exp x \<le> - 1"
proof -
  have "log 2 \<bar>x\<bar> < 0" using assms by simp
  then have "\<lfloor>log 2 \<bar>x\<bar>\<rfloor> \<le> - 1" by linarith
  then show ?thesis by (simp add: float_exp_def)
qed

lemma fl32_exact_scaled:
  assumes "x \<noteq> 0" and "\<bar>x\<bar> / ulp32 x = of_int k"
  shows "fl32 x = x"
proof -
  have "of_int k * ulp32 x = \<bar>x\<bar>" using assms(2) ulp32_pos [of x] by (simp add: field_simps)
  then show ?thesis using assms by (simp add: fl32_def rne_of_int sgn_if)
qed

lemma float_exp_eq:
  assumes "- 126 \<le> e" and "2 powr of_int e \<le> \<bar>x\<bar>" and "\<bar>x\<bar> < 2 powr (of_int e + 1)"
  shows "float_exp x = e"
proof -
  have pos: "0 < \<bar>x\<bar>" using assms(2) by (smt (verit) powr_gt_zero)
  have "of_int e \<le> log 2 \<bar>x\<bar>" using assms(2) pos by (simp add: le_log_iff)
  moreover have "log 2 \<bar>x\<bar> < of_int e + 1" using assms(3) pos by (simp add: log_less_iff)
  ultimately have "\<lfloor>log 2 \<bar>x\<bar>\<rfloor> = e" by linarith
  then show ?thesis using assms(1) by (simp add: float_exp_def)
qed

lemma fl32_pow2: assumes "- 126 \<le> e" shows "fl32 (2 powr of_int e) = 2 powr of_int e"
proof -
  let ?x = "2 powr real_of_int e"
  have e: "float_exp ?x = e"
    by (rule float_exp_eq [OF assms]) (simp_all)
  have "\<bar>?x\<bar> / ulp32 ?x = 2 powr 23"
    by (simp add: ulp32_def e flip: powr_diff)
  also have "\<dots> = of_int 8388608" by simp
  finally show ?thesis by (intro fl32_exact_scaled) simp_all
qed

lemma fl32_abs_err:
  assumes "\<bar>x\<bar> \<le> 1"
  shows "\<bar>fl32 x - x\<bar> \<le> 1 / 2 ^ 25"
proof -
  consider "x = 0" | "\<bar>x\<bar> = 1" | "x \<noteq> 0" "\<bar>x\<bar> < 1" using assms by fastforce
  then show ?thesis
  proof cases
    case 1
    then show ?thesis by (simp add: fl32_zero)
  next
    case 2
    have "fl32 1 = 1" using fl32_pow2 [of 0] by simp
    then have "fl32 x = x" using 2 fl32_minus [of 1] by (cases "0 \<le> x") auto
    then show ?thesis by simp
  next
    case 3
    have "of_int (float_exp x) - 23 \<le> (- 24 :: real)"
      using float_exp_small [OF 3] by simp
    then have "ulp32 x \<le> 2 powr (- 24)" unfolding ulp32_def by (intro powr_mono) simp_all
    also have "2 powr (- 24) = 1 / (2::real) ^ 24" by (simp add: powr_minus_divide)
    finally show ?thesis using fl32_err_ulp [of x] by simp
  qed
qed

lemma fl32_rel_err:
  assumes "2 powr (- 126) \<le> \<bar>x\<bar>"
  shows "\<bar>fl32 x - x\<bar> \<le> \<bar>x\<bar> / 2 ^ 24"
proof -
  have pos: "0 < \<bar>x\<bar>" using assms by (smt (verit) powr_gt_zero)
  have "- 126 \<le> log 2 \<bar>x\<bar>" using assms pos by (simp add: le_log_iff)
  then have "- 126 \<le> \<lfloor>log 2 \<bar>x\<bar>\<rfloor>" by linarith
  then have e: "float_exp x = \<lfloor>log 2 \<bar>x\<bar>\<rfloor>" by (simp add: float_exp_def)
  have "of_int (float_exp x) \<le> log 2 \<bar>x\<bar>" unfolding e by linarith
  then have "2 powr of_int (float_exp x) \<le> \<bar>x\<bar>" using pos by (simp add: le_log_iff)
  moreover have "ulp32 x = 2 powr of_int (float_exp x) / 2 ^ 23"
    by (simp add: ulp32_def powr_diff)
  ultimately have "ulp32 x / 2 \<le> \<bar>x\<bar> / 2 ^ 24" by (simp add: field_simps)
  then show ?thesis using fl32_err_ulp [of x] by linarith
qed

lemma fl32_nat:
  assumes "n < 2 ^ 24"
  shows "fl32 (real n) = real n"
proof (cases "n = 0")
  case True
  then show ?thesis by (simp add: fl32_zero)
next
  case False
  define e where "e = \<lfloor>log 2 (real n)\<rfloor>"
  have n1: "1 \<le> real n" using False by simp
  have lo: "0 \<le> log 2 (real n)" using n1 by simp
  have "real n < 2 ^ 24" using assms by (metis of_nat_less_iff of_nat_numeral of_nat_power)
  then have "log 2 (real n) < 24" using n1 by (simp add: log_less_iff)
  then have e: "0 \<le> e" "e \<le> 23" unfolding e_def using lo by linarith+
  have fe: "float_exp (real n) = e" using e by (simp add: float_exp_def e_def)
  have "23 - real_of_int e = real (nat (23 - e))" using e by simp
  then have "2 powr (23 - real_of_int e) = 2 ^ nat (23 - e)"
    by (metis powr_realpow zero_less_numeral)
  then have p: "2 powr (23 - real_of_int e) = of_int (2 ^ nat (23 - e))" by simp
  have "ulp32 (real n) * 2 powr (23 - real_of_int e) = 1"
    by (simp add: ulp32_def fe flip: powr_add)
  then have "real n / ulp32 (real n) = real n * 2 powr (23 - real_of_int e)"
    using ulp32_pos [of "real n"] by (simp add: field_simps)
  then have "\<bar>real n\<bar> / ulp32 (real n) = of_int (int n * 2 ^ nat (23 - e))"
    unfolding p by simp
  then show ?thesis using False by (intro fl32_exact_scaled [where k = "int n * 2 ^ nat (23 - e)"]) simp_all
qed

lemma length_linspace: "length (linspace a b n) = n"
  by (simp add: linspace_def Let_def)

lemma fl32_one: "fl32 1 = 1"
  using fl32_pow2 [of 0] by simp

lemma linspace_unit_nth:
  assumes "0 < N" and "k \<le> N"
  shows "linspace 1 0 (N + 1) ! k =
           (if k < (N + 1) div 2
            then fl32 (1 + fl32 (fl32 (- 1 / fl32 (real N)) * fl32 (real k)))
            else fl32 (0 - fl32 (fl32 (- 1 / fl32 (real N)) * fl32 (real (N - k)))))"
proof -
  have k: "k < N + 1" using assms by simp
  have "[0..<N + 1] ! k = k" using k by (metis add_0 nth_upt)
  then show ?thesis
    using assms k fl32_minus [of 1]
    by (simp add: linspace_def Let_def fl32_zero fl32_one del: upt_Suc)
qed

lemma linspace_unit_first: "0 < N \<Longrightarrow> linspace 1 0 (N + 1) ! 0 = 1"
  using linspace_unit_nth [of N 0] by (simp add: fl32_zero fl32_one)

lemma linspace_unit_last:
  assumes "0 < N"
  shows "linspace 1 0 (N + 1) ! N = 0"
proof -
  have "\<not> N < (N + 1) div 2" using assms by linarith
  then show ?thesis using linspace_unit_nth [OF assms, of N] by (simp add: fl32_zero)
qed

lemma pow_values: "(2::real) ^ 22 = 4194304" "(2::real) ^ 24 = 16777216" "(2::real) ^ 25 = 33554432"
  by simp_all

lemma step_bounds:
  assumes "0 < N" and "N \<le> 2 ^ 22"
  shows "fl32 (- 1 / real N) \<le> 0"
    and "\<bar>- fl32 (- 1 / real N) - 1 / real N\<bar> \<le> (1 / real N) / 2 ^ 24"
proof -
  have n: "0 < real N" using assms(1) by simp
  have n': "real N \<le> 2 ^ 22" using assms(2) by (metis of_nat_le_iff of_nat_numeral of_nat_power)
  show "fl32 (- 1 / real N) \<le> 0" using fl32_sign [of "- 1 / real N"] n by simp
  have A: "1 / 2 ^ 22 \<le> 1 / real N" using n n' by (intro divide_left_mono) simp_all
  have B: "2 powr (- 126) \<le> 1 / (2::real) ^ 22" by (simp add: powr_minus_divide)
  have abs: "\<bar>- 1 / real N\<bar> = 1 / real N" using n by simp
  have "2 powr (- 126) \<le> \<bar>- 1 / real N\<bar>" unfolding abs using A B by (rule order_trans [rotated])
  then have "\<bar>fl32 (- 1 / real N) - (- 1 / real N)\<bar> \<le> \<bar>- 1 / real N\<bar> / 2 ^ 24"
    by (rule fl32_rel_err)
  then have "\<bar>fl32 (- 1 / real N) - (- 1 / real N)\<bar> \<le> (1 / real N) / 2 ^ 24"
    unfolding abs .
  moreover have "\<bar>- fl32 (- 1 / real N) - 1 / real N\<bar> = \<bar>fl32 (- 1 / real N) - (- 1 / real N)\<bar>"
    by (simp add: abs_minus_commute)
  ultimately show "\<bar>- fl32 (- 1 / real N) - 1 / real N\<bar> \<le> (1 / real N) / 2 ^ 24"
    by (simp only:)
qed

lemma product_bound:
  assumes n: "0 < N" and r: "\<bar>r - 1 / real N\<bar> \<le> (1 / real N) / 2 ^ 24" and m: "2 * m \<le> N"
  shows "\<bar>r * real m - real m / real N\<bar> \<le> 1 / 2 ^ 25"
proof -
  have "r * real m - real m / real N = real m * (r - 1 / real N)" by (simp add: algebra_simps)
  then have "\<bar>r * real m - real m / real N\<bar> = real m * \<bar>r - 1 / real N\<bar>"
    by (simp add: abs_mult)
  also have "\<dots> \<le> real m * ((1 / real N) / 2 ^ 24)"
    using r by (intro mult_left_mono) simp_all
  also have "\<dots> = (real m / real N) / 2 ^ 24" by simp
  also have "\<dots> \<le> (1 / 2) / 2 ^ 24"
  proof -
    have "2 * real m \<le> real N" using m by (metis of_nat_le_iff of_nat_mult of_nat_numeral)
    then have "real m / real N \<le> 1 / 2" using n by (simp add: field_simps)
    then show ?thesis by (intro divide_right_mono) simp_all
  qed
  finally show ?thesis by simp
qed

lemma scaled_step:
  assumes n: "0 < N" "N \<le> 2 ^ 22" and m: "2 * m \<le> N"
  shows "fl32 (fl32 (- 1 / fl32 (real N)) * fl32 (real m)) \<le> 0"
    and "- 1 \<le> fl32 (fl32 (- 1 / fl32 (real N)) * fl32 (real m))"
    and "\<bar>- fl32 (fl32 (- 1 / fl32 (real N)) * fl32 (real m)) - real m / real N\<bar> \<le> 2 / 2 ^ 25"
proof -
  define s where "s = fl32 (- 1 / real N)"
  define t where "t = real m / real N"
  define a where "a = s * real m"
  have "N < 2 ^ 24" using n(2) by (rule order_le_less_trans) simp
  moreover have "m < 2 ^ 24" using m n(2) by (intro order_le_less_trans [of m "2 ^ 22"]) simp_all
  ultimately have en: "fl32 (real N) = real N" and em: "fl32 (real m) = real m"
    by (simp_all add: fl32_nat)
  have s0: "s \<le> 0" and sr: "\<bar>- s - 1 / real N\<bar> \<le> (1 / real N) / 2 ^ 24"
    unfolding s_def using step_bounds [OF n] by simp_all
  have "\<bar>(- s) * real m - real m / real N\<bar> \<le> 1 / 2 ^ 25"
    by (rule product_bound [OF n(1) sr m])
  then have pb: "\<bar>- a - t\<bar> \<le> 1 / 33554432" by (simp add: a_def t_def)
  have "2 * real m \<le> real N" using m by (metis of_nat_le_iff of_nat_mult of_nat_numeral)
  then have half: "t \<le> 1 / 2" "0 \<le> t"
    using n(1) by (simp_all add: t_def field_simps)
  have a1: "\<bar>a\<bar> \<le> 1" using pb half by linarith
  have "\<bar>fl32 a - a\<bar> \<le> 1 / 2 ^ 25" by (rule fl32_abs_err [OF a1])
  then have e1: "\<bar>fl32 a - a\<bar> \<le> 1 / 33554432" by simp
  have "a \<le> 0" using s0 by (simp add: a_def mult_le_0_iff)
  then have sg: "fl32 a \<le> 0" using fl32_sign [of a] by simp
  have eq: "fl32 (fl32 (- 1 / fl32 (real N)) * fl32 (real m)) = fl32 a"
    by (simp only: en em a_def s_def)
  have "\<bar>- fl32 a - t\<bar> \<le> 2 / 33554432" using pb e1 by linarith
  then have b3: "\<bar>- fl32 a - t\<bar> \<le> 2 / 2 ^ 25" by simp
  have b2: "- 1 \<le> fl32 a" using pb e1 half by linarith
  show "fl32 (fl32 (- 1 / fl32 (real N)) * fl32 (real m)) \<le> 0" unfolding eq by (rule sg)
  show "- 1 \<le> fl32 (fl32 (- 1 / fl32 (real N)) * fl32 (real m))" unfolding eq by (rule b2)
  show "\<bar>- fl32 (fl32 (- 1 / fl32 (real N)) * fl32 (real m)) - real m / real N\<bar> \<le> 2 / 2 ^ 25"
    unfolding eq using b3 by (simp only: t_def)
qed

lemma linspace_unit_approx:
  assumes n: "0 < N" "N \<le> 2 ^ 22" and k: "k \<le> N"
  shows "\<bar>linspace 1 0 (N + 1) ! k - (1 - real k / real N)\<bar> \<le> 3 / 2 ^ 25"
proof (cases "k < (N + 1) div 2")
  case True
  define p where "p = fl32 (fl32 (- 1 / fl32 (real N)) * fl32 (real k))"
  define t where "t = real k / real N"
  have m: "2 * k \<le> N" using True by simp
  have "\<bar>- p - t\<bar> \<le> 2 / 2 ^ 25" unfolding p_def t_def by (rule scaled_step(3) [OF n m])
  then have p3: "\<bar>- p - t\<bar> \<le> 2 / 33554432" by simp
  have p1: "p \<le> 0" and p2: "- 1 \<le> p"
    unfolding p_def using scaled_step(1,2) [OF n m] by simp_all
  have "\<bar>1 + p\<bar> \<le> 1" using p1 p2 by linarith
  then have "\<bar>fl32 (1 + p) - (1 + p)\<bar> \<le> 1 / 2 ^ 25" by (rule fl32_abs_err)
  then have "\<bar>fl32 (1 + p) - (1 + p)\<bar> \<le> 1 / 33554432" by simp
  then have "\<bar>fl32 (1 + p) - (1 - t)\<bar> \<le> 3 / 33554432" using p3 by linarith
  then have "\<bar>fl32 (1 + p) - (1 - t)\<bar> \<le> 3 / 2 ^ 25" by simp
  moreover have "linspace 1 0 (N + 1) ! k = fl32 (1 + p)"
    unfolding p_def using True by (simp only: linspace_unit_nth [OF n(1) k] if_True)
  ultimately show ?thesis by (simp only: t_def)
next
  case False
  define p where "p = fl32 (fl32 (- 1 / fl32 (real N)) * fl32 (real (N - k)))"
  define t where "t = real (N - k) / real N"
  have m: "2 * (N - k) \<le> N" using False k by simp
  have "\<bar>- p - t\<bar> \<le> 2 / 2 ^ 25" unfolding p_def t_def by (rule scaled_step(3) [OF n m])
  then have p3: "\<bar>- p - t\<bar> \<le> 2 / 33554432" by simp
  have p1: "p \<le> 0" and p2: "- 1 \<le> p"
    unfolding p_def using scaled_step(1,2) [OF n m] by simp_all
  have t: "t = 1 - real k / real N"
    using k n(1) by (simp add: t_def of_nat_diff field_simps)
  have "\<bar>0 - p\<bar> \<le> 1" using p1 p2 by linarith
  then have "\<bar>fl32 (0 - p) - (0 - p)\<bar> \<le> 1 / 2 ^ 25" by (rule fl32_abs_err)
  then have "\<bar>fl32 (0 - p) - (0 - p)\<bar> \<le> 1 / 33554432" by simp
  then have "\<bar>fl32 (0 - p) - t\<bar> \<le> 3 / 33554432" using p3 by linarith
  then have "\<bar>fl32 (0 - p) - t\<bar> \<le> 3 / 2 ^ 25" by simp
  moreover have "linspace 1 0 (N + 1) ! k = fl32 (0 - p)"
    unfolding p_def using False by (simp only: linspace_unit_nth [OF n(1) k] if_False)
  ultimately show ?thesis by (simp only: t)
qed

lemma linspace_unit_decreasing:
  assumes n: "0 < N" "N \<le> 2 ^ 22" and kl: "k < l" "l \<le> N"
  shows "linspace 1 0 (N + 1) ! l < linspace 1 0 (N + 1) ! k"
proof -
  define A where "A = linspace 1 0 (N + 1) ! k"
  define B where "B = linspace 1 0 (N + 1) ! l"
  define tk where "tk = real k / real N"
  define tl where "tl = real l / real N"
  have k: "k \<le> N" using kl by simp
  have "\<bar>A - (1 - tk)\<bar> \<le> 3 / 2 ^ 25" unfolding A_def tk_def by (rule linspace_unit_approx [OF n k])
  then have a: "\<bar>A - (1 - tk)\<bar> \<le> 3 / 33554432" by simp
  have "\<bar>B - (1 - tl)\<bar> \<le> 3 / 2 ^ 25" unfolding B_def tl_def by (rule linspace_unit_approx [OF n kl(2)])
  then have b: "\<bar>B - (1 - tl)\<bar> \<le> 3 / 33554432" by simp
  have rn: "0 < real N" using n(1) by simp
  have rn': "real N \<le> 4194304"
    using n(2) by (metis of_nat_le_iff of_nat_numeral of_nat_power pow_values(1))
  have "real k + 1 \<le> real l" using kl(1) by (metis Suc_leI of_nat_Suc of_nat_le_iff add.commute)
  then have "(real k + 1) / real N \<le> real l / real N"
    using rn by (intro divide_right_mono) simp_all
  then have "tk + 1 / real N \<le> tl" by (simp add: tk_def tl_def add_divide_distrib)
  moreover have "1 / 4194304 \<le> 1 / real N" using rn rn' by (intro divide_left_mono) simp_all
  ultimately have "tk + 1 / 4194304 \<le> tl" by linarith
  then have "B < A" using a b by linarith
  then show ?thesis by (simp only: A_def B_def)
qed

lemma fl32_just_below_one: "fl32 (67108863 / 67108864) = 1"
proof -
  let ?x = "67108863 / (67108864::real)"
  have e: "float_exp ?x = - 1"
    by (rule float_exp_eq) (simp_all add: powr_minus_divide)
  have u: "ulp32 ?x = 1 / 16777216" by (simp add: ulp32_def e powr_minus_divide)
  have q: "\<bar>?x\<bar> / ulp32 ?x = 67108863 / 4" by (simp add: u)
  have f: "\<lfloor>67108863 / (4::real)\<rfloor> = 16777215" by linarith
  have "rne (67108863 / 4) = 16777216" by (simp add: rne_def f)
  then show ?thesis by (simp add: fl32_def q) (simp add: u)
qed

lemma linspace_saturates: "linspace 1 0 (67108864 + 1) ! 1 = 1"
proof -
  have p: "fl32 67108864 = 67108864" using fl32_pow2 [of 26] by simp
  have "fl32 (1 / 67108864) = 1 / 67108864"
    using fl32_pow2 [of "- 26"] by (simp add: powr_minus_divide)
  then have s: "fl32 (- (1 / 67108864)) = - (1 / 67108864)" by (simp add: fl32_minus)
  have o: "fl32 1 = 1" by (rule fl32_one)
  have "linspace 1 0 (67108864 + 1) ! 1 = fl32 (1 + fl32 (fl32 (- 1 / fl32 (real 67108864)) * fl32 (real 1)))"
    by (subst linspace_unit_nth) simp_all
  also have "\<dots> = fl32 (67108863 / 67108864)" by (simp add: p s o)
  finally show ?thesis by (simp only: fl32_just_below_one)
qed

lemma length_get_sampling_timesteps: "length (get_sampling_timesteps b N) = N"
  by (simp add: get_sampling_timesteps_def Let_def)

lemma get_sampling_timesteps_nth:
  assumes "k < N"
  shows "get_sampling_timesteps b N ! k =
           (replicate b (linspace 1 0 (N + 1) ! k), replicate b (linspace 1 0 (N + 1) ! Suc k))"
  using assms
  by (simp add: get_sampling_timesteps_def Let_def nth_butlast nth_tl length_linspace)

lemma linspace_three: "linspace 1 0 (2 + 1) ! 1 = 1 / 2"
proof -
  have two: "fl32 2 = 2" using fl32_nat [of 2] by simp
  have "fl32 (1 / 2) = 1 / 2" using fl32_pow2 [of "- 1"] by (simp add: powr_minus_divide)
  then have half: "fl32 (- (1 / 2)) = - (1 / 2)" by (simp add: fl32_minus)
  have "linspace 1 0 (2 + 1) ! 1 = fl32 (0 - fl32 (fl32 (- 1 / fl32 (real 2)) * fl32 (real (2 - 1))))"
    by (subst linspace_unit_nth) simp_all
  also have "\<dots> = fl32 (1 / 2)" by (simp add: two half fl32_one)
  finally show ?thesis using \<open>fl32 (1 / 2) = 1 / 2\<close> by (simp only:)
qed

text \<open>
  Claim C7, as amended. For a positive number of steps \<open>N\<close> the scheduler builds \<open>N + 1\<close>
  single-precision times and returns exactly \<open>N\<close> pairs, the \<open>k\<close>-th pairing the \<open>k\<close>-th
  time with the next one (each repeated over the batch), so that each pair starts where
  the one before ended; the first pair starts at 1 and the last pair ends at 0. For \<open>N\<close>
  up to \<open>2\<^sup>2\<^sup>2\<close> the times are evenly spaced up to rounding, the \<open>k\<close>-th within
  \<open>3 / 2\<^sup>2\<^sup>5\<close> of \<open>1 - k / N\<close>, and strictly decreasing: within every pair \<open>time_next\<close>
  is below \<open>time\<close>, and a later pair has a smaller time than an earlier one.
\<close>

theorem get_sampling_timesteps_pairs:
  assumes "0 < N"
  shows "length (linspace 1 0 (N + 1)) = N + 1 \<and>
         length (get_sampling_timesteps b N) = N \<and>
         (\<forall>k<N. get_sampling_timesteps b N ! k =
             (replicate b (linspace 1 0 (N + 1) ! k),
              replicate b (linspace 1 0 (N + 1) ! Suc k))) \<and>
         fst (hd (get_sampling_timesteps b N)) = replicate b 1 \<and>
         snd (last (get_sampling_timesteps b N)) = replicate b 0 \<and>
         (\<forall>k. Suc k < N \<longrightarrow>
             fst (get_sampling_timesteps b N ! Suc k) = snd (get_sampling_timesteps b N ! k)) \<and>
         (N \<le> 2 ^ 22 \<longrightarrow>
            (\<forall>k\<le>N. \<bar>linspace 1 0 (N + 1) ! k - (1 - real k / real N)\<bar> \<le> 3 / 2 ^ 25) \<and>
            (\<forall>k<N. \<forall>j<b.
               snd (get_sampling_timesteps b N ! k) ! j < fst (get_sampling_timesteps b N ! k) ! j) \<and>
            (\<forall>k<N. \<forall>l<N. k < l \<longrightarrow> (\<forall>j<b.
               fst (get_sampling_timesteps b N ! l) ! j < fst (get_sampling_timesteps b N ! k) ! j)))"
proof -
  let ?p = "get_sampling_timesteps b N"
  let ?ts = "linspace 1 0 (N + 1)"
  have len: "length ?p = N" by (rule length_get_sampling_timesteps)
  have ne: "?p \<noteq> []" using len assms by auto
  have nth: "\<forall>k<N. ?p ! k = (replicate b (?ts ! k), replicate b (?ts ! Suc k))"
    by (simp add: get_sampling_timesteps_nth)
  have "fst (hd ?p) = replicate b (?ts ! 0)"
    using nth assms ne by (simp add: hd_conv_nth)
  then have first: "fst (hd ?p) = replicate b 1"
    by (simp only: linspace_unit_first [OF assms])
  have "snd (last ?p) = replicate b (?ts ! N)"
    using nth assms ne len by (simp add: last_conv_nth)
  then have final: "snd (last ?p) = replicate b 0"
    by (simp only: linspace_unit_last [OF assms])
  have chained: "\<forall>k. Suc k < N \<longrightarrow> fst (?p ! Suc k) = snd (?p ! k)"
    by (simp add: get_sampling_timesteps_nth)
  have small: "(\<forall>k\<le>N. \<bar>?ts ! k - (1 - real k / real N)\<bar> \<le> 3 / 2 ^ 25) \<and>
      (\<forall>k<N. \<forall>j<b. snd (?p ! k) ! j < fst (?p ! k) ! j) \<and>
      (\<forall>k<N. \<forall>l<N. k < l \<longrightarrow> (\<forall>j<b. fst (?p ! l) ! j < fst (?p ! k) ! j))"
    if n: "N \<le> 2 ^ 22"
  proof (intro conjI allI impI)
    fix k assume "k \<le> N"
    then show "\<bar>?ts ! k - (1 - real k / real N)\<bar> \<le> 3 / 2 ^ 25"
      by (rule linspace_unit_approx [OF assms n])
  next
    fix k j assume k: "k < N" and j: "j < b"
    have "?ts ! Suc k < ?ts ! k"
      using k by (intro linspace_unit_decreasing [OF assms n]) simp_all
    then show "snd (?p ! k) ! j < fst (?p ! k) ! j"
      using k j by (simp add: get_sampling_timesteps_nth)
  next
    fix k l j assume k: "k < N" and l: "l < N" and kl: "k < l" and j: "j < b"
    have "?ts ! l < ?ts ! k"
      using kl l by (intro linspace_unit_decreasing [OF assms n]) simp_all
    then show "fst (?p ! l) ! j < fst (?p ! k) ! j"
      using k l j by (simp add: get_sampling_timesteps_nth)
  qed
  show ?thesis
    using len nth first final chained small length_linspace [of 1 0 "N + 1"] by blast
qed

theorem get_sampling_timesteps_pairs_witness:
  "(0::nat) < 2 \<and> (2::nat) \<le> 2 ^ 22 \<and>
   get_sampling_timesteps 1 2 = [([1], [1 / 2]), ([1 / 2], [0])]"
proof -
  have n: "(0::nat) < 2" by simp
  have m: "(2::nat) \<le> 2 ^ 22" by simp
  let ?p = "get_sampling_timesteps 1 2"
  let ?ts = "linspace 1 0 (2 + 1)"
  note all = get_sampling_timesteps_pairs [OF n, of 1]
  have len: "length ?p = 2" using all by blast
  have nth: "\<forall>k<2. ?p ! k = (replicate 1 (?ts ! k), replicate 1 (?ts ! Suc k))"
    using all by blast
  have first: "fst (hd ?p) = replicate 1 1" using all by blast
  have final: "snd (last ?p) = replicate 1 0" using all by blast
  have ne: "?p \<noteq> []" using len by auto
  have h: "fst (?p ! 0) = [1]" using first ne by (simp add: hd_conv_nth)
  have l: "snd (?p ! 1) = [0]" using final ne len by (simp add: last_conv_nth)
  have s0: "snd (?p ! 0) = [?ts ! Suc 0]" using nth by simp
  have f1: "fst (?p ! 1) = [?ts ! 1]" using nth by simp
  have mid: "?ts ! Suc 0 = 1 / 2" "?ts ! 1 = 1 / 2" using linspace_three by simp_all
  have e0: "?p ! 0 = ([1], [1 / 2])" using h s0 mid(1) by (simp add: prod_eq_iff)
  have e1: "?p ! 1 = ([1 / 2], [0])" using l f1 mid(2) by (simp add: prod_eq_iff)
  have "?p = [([1], [1 / 2]), ([1 / 2], [0])]"
    using len e0 e1 by (intro nth_equalityI) (auto simp: less_Suc_eq numeral_2_eq_2)
  then show ?thesis using n m by blast
qed

text \<open>
  Claim C7 as stated fails for a large number of steps: with \<open>N = 2\<^sup>2\<^sup>6\<close> the second
  time, \<open>1 - 1 / N\<close>, rounds to 1 in single precision, so the first pair has
  \<open>time_next\<close> equal to \<open>time\<close> and the times are not strictly decreasing.
\<close>

theorem get_sampling_timesteps_not_strict_counterexample:
  "get_sampling_timesteps 1 67108864 ! 0 = ([1], [1])"
proof -
  have f0: "linspace 1 0 (67108864 + 1) ! 0 = 1" by (rule linspace_unit_first) simp
  have f1: "linspace 1 0 (67108864 + 1) ! Suc 0 = 1"
    using linspace_saturates by (simp only: One_nat_def)
  have "get_sampling_timesteps 1 67108864 ! 0 =
          (replicate 1 (linspace 1 0 (67108864 + 1) ! 0),
           replicate 1 (linspace 1 0 (67108864 + 1) ! Suc 0))"
    by (rule get_sampling_timesteps_nth) simp
  then have "get_sampling_timesteps 1 67108864 ! 0 = (replicate 1 1, replicate 1 1)"
    by (simp only: f0 f1)
  then show ?thesis by simp
qed

section \<open>The DDIM sampler\<close>

lemma ddim_step_rng:
  "ddim_step M oct t tn (nf, g) = (fst (ddim_step M oct t tn (nf, g0)), g)"
  by (simp add: ddim_step_def Let_def split_def)

lemma ddim_fold_rng:
  "fold (\<lambda>(t, tn). ddim_step M oct (item t) (item tn)) ps (nf, g) =
     (fst (fold (\<lambda>(t, tn). ddim_step M oct (item t) (item tn)) ps (nf, g0)), g)"
proof (induction ps arbitrary: nf)
  case Nil
  show ?case by simp
next
  case (Cons p ps)
  obtain t tn where p: "p = (t, tn)" by (cases p)
  obtain nf' where s: "ddim_step M oct (item t) (item tn) (nf, g0) = (nf', g0)"
    using ddim_step_rng [of M oct "item t" "item tn" nf g0 g0] by simp
  have s': "ddim_step M oct (item t) (item tn) (nf, g) = (nf', g)"
    using ddim_step_rng [of M oct "item t" "item tn" nf g g0] s by simp
  show ?case using Cons.IH [of nf'] by (simp add: p s s')
qed

text \<open>
  Claim C3. The DDIM sampler is deterministic: with the same initial noise field, octree,
  number of steps and network, two runs return the same field whatever the states
  \<open>g1\<close> and \<open>g2\<close> of the random generator are, and a run leaves the generator as it found
  it, so that no random value is drawn at any step.
\<close>

theorem ddim_sample_deterministic:
  "fst (ddim_sample M nf oct steps ti v g1) = fst (ddim_sample M nf oct steps ti v g2) \<and>
   snd (ddim_sample M nf oct steps ti v g1) = g1"
  unfolding ddim_sample_def Let_def
  by (metis ddim_fold_rng fst_conv snd_conv)

text \<open>
  Claim C10. The result of the DDIM sampler does not depend on the truncation index it is
  given: two runs that differ in that argument alone return the same field and generator.
\<close>

theorem ddim_sample_ignores_truncated_index:
  "ddim_sample M nf oct steps ti1 v g = ddim_sample M nf oct steps ti2 v g"
  by (simp add: ddim_sample_def)

text \<open>
  Claim C4. In a DDIM step the divisor of the noise prediction is \<open>sigma\<close> clamped below at
  \<open>1e-8\<close>, which is positive whatever the schedule gives, and every entry of the next
  field is \<open>x_start * alpha_next + pred_noise * sigma_next\<close> with
  \<open>pred_noise = (current - alpha * x_start) / max(sigma, 1e-8)\<close>, where \<open>x_start\<close> is
  the entry of the network's prediction clamped to [-1, 1]. The network is taken to return
  a field of the layout of the field it is given.
\<close>

theorem ddim_step_update:
  assumes sh: "shape (denoise_fn M nf [log_snr M t] oct None) = shape nf"
    and r: "r < length nf" and j: "j < length (nf ! r)"
  shows "(let (alpha, sigma) = log_snr_to_alpha_sigma (log_snr M t);
              (alpha_next, sigma_next) = log_snr_to_alpha_sigma (log_snr M tn);
              x_start = min (max (denoise_fn M nf [log_snr M t] oct None ! r ! j) (- 1)) 1;
              divisor = max sigma (1 / 10 ^ 8);
              pred_noise = (nf ! r ! j - alpha * x_start) / divisor
          in 0 < divisor \<and>
             shape (fst (ddim_step M oct t tn (nf, g))) = shape nf \<and>
             fst (ddim_step M oct t tn (nf, g)) ! r ! j =
               x_start * alpha_next + pred_noise * sigma_next)"
proof -
  let ?d = "denoise_fn M nf [log_snr M t] oct None"
  let ?x = "clamp_inplace (- 1) 1 ?d"
  have shc: "shape ?x = shape nf"
    by (simp add: clamp_inplace_def shape_tmap sh)
  have r': "r < length ?d" using r shape_eq_length [OF sh] by simp
  have j': "j < length (?d ! r)" using j r' shape_eq_row [OF sh r'] by simp
  have cl: "?x ! r ! j = min (max (?d ! r ! j) (- 1)) 1"
    using r' j' by (simp add: clamp_inplace_def tmap_nth)
  have rc: "r < length ?x" using r shape_eq_length [OF shc] by simp
  have jc: "j < length (?x ! r)" using j rc shape_eq_row [OF shc rc] by simp
  have shp: "shape (tmap2 f nf ?x) = shape nf" for f
    by (rule shape_tmap2 [OF shc [symmetric]])
  have rp: "r < length (tmap2 f nf ?x)" for f
    using r shape_eq_length [OF shp [of f]] by simp
  have jp: "j < length (tmap2 f nf ?x ! r)" for f
    using j rp [of f] shape_eq_row [OF shp [of f] rp [of f]] by simp
  have shq: "shape (tmap2 f2 ?x (tmap2 f nf ?x)) = shape nf" for f f2
    using shape_tmap2 [of ?x "tmap2 f nf ?x" f2] shc shp [of f] by simp
  have pos: "(0::real) < max s (1 / 10 ^ 8)" for s
    by (simp add: less_max_iff_disj)
  show ?thesis
    using r j rc jc cl rp jp pos
    by (simp add: ddim_step_def Let_def split_def tmap2_nth shq)
qed

theorem ddim_step_update_witness:
  "shape (denoise_fn example_model [[1], [- 3]] [log_snr example_model 1] example_octree None)
     = shape [[1], [- 3]] \<and>
   (1::nat) < length [[1::real], [- 3]] \<and> (0::nat) < length ([[1::real], [- 3]] ! 1) \<and>
   fst (ddim_step example_model example_octree 1 (1 / 2) ([[1], [- 3]], example_rng)) ! 1 ! 0 =
     - 1 * fst (log_snr_to_alpha_sigma 0)
     + (- 3 - fst (log_snr_to_alpha_sigma (- 10)) * (- 1))
         / max (snd (log_snr_to_alpha_sigma (- 10))) (1 / 10 ^ 8)
       * snd (log_snr_to_alpha_sigma 0)"
proof -
  have h1: "shape (denoise_fn example_model [[1], [- 3]] [log_snr example_model 1] example_octree None)
     = shape [[1], [- 3]]"
    by (simp add: example_model_def example_denoiser_def shape_def tmap_def)
  have h2: "(1::nat) < length [[1::real], [- 3]]" by simp
  have h3: "(0::nat) < length ([[1::real], [- 3]] ! 1)" by simp
  have d: "denoise_fn example_model [[1], [- 3]] l example_octree None = [[1 / 2], [- 3 / 2]]" for l
    by (simp add: example_model_def example_denoiser_def tmap_def)
  have l1: "log_snr example_model 1 = - 10" and l2: "log_snr example_model (1 / 2) = 0"
    by (simp_all add: example_model_def example_schedule_def)
  show ?thesis
    using h1 h2 h3 ddim_step_update [OF h1 h2 h3, of "1 / 2" example_rng]
    by (simp add: Let_def split_def d l1 l2)
qed

section \<open>The DDPM sampler\<close>

text \<open>
  Claim C1. In a DDPM step with the pair \<open>(t, tn)\<close>, the network's prediction is clamped
  entry by entry to [-1, 1]; with \<open>c = -expm1(log_snr t - log_snr tn)\<close>, which is
  \<open>1 - exp(log_snr t - log_snr tn)\<close>, every entry of the posterior mean is
  \<open>alpha_next * (current * (1 - c) / alpha + c * x_start)\<close> and the posterior variance is
  \<open>sigma_next\<^sup>2 * c\<close>, where \<open>(alpha, sigma)\<close> come from \<open>log_snr t\<close> and
  \<open>(alpha_next, sigma_next)\<close> from \<open>log_snr tn\<close>; the entry of the updated field is that
  mean, plus \<open>sqrt(variance)\<close> times the entry of the noise when noise is added. The
  network is taken to return a field of the layout of the field it is given.
\<close>

theorem ddpm_posterior_mean_variance:
  assumes sh: "shape (denoise_fn M nf [log_snr M t] oct None) = shape nf"
    and r: "r < length nf" and j: "j < length (nf ! r)"
  shows "(let (alpha, sigma) = log_snr_to_alpha_sigma (log_snr M t);
              (alpha_next, sigma_next) = log_snr_to_alpha_sigma (log_snr M tn);
              c = - expm1 (log_snr M t - log_snr M tn);
              x_start = min (max (denoise_fn M nf [log_snr M t] oct None ! r ! j) (- 1)) 1;
              mean = alpha_next * (nf ! r ! j * (1 - c) / alpha + c * x_start);
              variance = sigma_next\<^sup>2 * c
          in - 1 \<le> x_start \<and> x_start \<le> 1 \<and>
             c = 1 - exp (log_snr M t - log_snr M tn) \<and>
             shape (fst (ddpm_mean_variance M nf oct t tn)) = shape nf \<and>
             fst (ddpm_mean_variance M nf oct t tn) ! r ! j = mean \<and>
             snd (ddpm_mean_variance M nf oct t tn) = variance \<and>
             fst (ddpm_step M oct ti t tn (nf, g)) ! r ! j =
               mean + (if ti < tn then sqrt variance * (fst (randn_like nf g) ! r ! j) else 0))"
proof -
  let ?d = "denoise_fn M nf [log_snr M t] oct None"
  let ?mv = "ddpm_mean_variance M nf oct t tn"
  have shc: "shape (clamp_inplace (- 1) 1 ?d) = shape nf"
    by (simp add: clamp_inplace_def shape_tmap sh)
  have r': "r < length ?d" using r shape_eq_length [OF sh] by simp
  have j': "j < length (?d ! r)" using j r' shape_eq_row [OF sh r'] by simp
  have cl: "clamp_inplace (- 1) 1 ?d ! r ! j = min (max (?d ! r ! j) (- 1)) 1"
    using r' j' by (simp add: clamp_inplace_def tmap_nth)
  have rc: "r < length (clamp_inplace (- 1) 1 ?d)"
    using r shape_eq_length [OF shc] by simp
  have jc: "j < length (clamp_inplace (- 1) 1 ?d ! r)"
    using j rc shape_eq_row [OF shc rc] by simp
  have shm: "shape (fst ?mv) = shape nf"
    by (simp add: ddpm_mean_variance_def Let_def split_def shape_tmap2 [OF shc [symmetric]])
  have rm: "r < length (fst ?mv)" using r shape_eq_length [OF shm] by simp
  have jm: "j < length (fst ?mv ! r)" using j rm shape_eq_row [OF shm rm] by simp
  have shn: "shape (fst (randn_like nf g)) = shape nf" by (rule randn_like_shape)
  have rn: "r < length (fst (randn_like nf g))" using r shape_eq_length [OF shn] by simp
  have jn: "j < length (fst (randn_like nf g) ! r)" using j rn shape_eq_row [OF shn rn] by simp
  have step: "fst (ddpm_step M oct ti t tn (nf, g)) ! r ! j =
      fst ?mv ! r ! j + (if ti < tn then sqrt (snd ?mv) * (fst (randn_like nf g) ! r ! j) else 0)"
    using rm jm rn jn by (simp add: ddpm_step_def Let_def split_def tmap2_nth)
  have mv: "fst ?mv ! r ! j =
      fst (log_snr_to_alpha_sigma (log_snr M tn)) *
        (nf ! r ! j * (1 - - expm1 (log_snr M t - log_snr M tn))
           / fst (log_snr_to_alpha_sigma (log_snr M t))
         + - expm1 (log_snr M t - log_snr M tn) * min (max (?d ! r ! j) (- 1)) 1)"
    and var: "snd ?mv = (snd (log_snr_to_alpha_sigma (log_snr M tn)))\<^sup>2
                         * - expm1 (log_snr M t - log_snr M tn)"
    using r j rc jc cl
    by (simp_all add: ddpm_mean_variance_def Let_def split_def tmap2_nth)
  show ?thesis
    unfolding Let_def split_def step
    using shm mv var by (simp add: expm1_def)
qed

theorem ddpm_posterior_mean_variance_witness:
  "shape (denoise_fn example_model [[1], [- 3]] [log_snr example_model 1] example_octree None)
     = shape [[1], [- 3]] \<and>
   (1::nat) < length [[1::real], [- 3]] \<and> (0::nat) < length ([[1::real], [- 3]] ! 1) \<and>
   fst (ddpm_mean_variance example_model [[1], [- 3]] example_octree 1 (1 / 2)) ! 1 ! 0 =
     fst (log_snr_to_alpha_sigma 0) *
       (- 3 * (1 - (1 - exp (- 10))) / fst (log_snr_to_alpha_sigma (- 10))
        + (1 - exp (- 10)) * (- 1)) \<and>
   snd (ddpm_mean_variance example_model [[1], [- 3]] example_octree 1 (1 / 2)) =
     (snd (log_snr_to_alpha_sigma 0))\<^sup>2 * (1 - exp (- 10))"
proof -
  have h1: "shape (denoise_fn example_model [[1], [- 3]] [log_snr example_model 1] example_octree None)
     = shape [[1], [- 3]]"
    by (simp add: example_model_def example_denoiser_def shape_def tmap_def)
  have h2: "(1::nat) < length [[1::real], [- 3]]" by simp
  have h3: "(0::nat) < length ([[1::real], [- 3]] ! 1)" by simp
  have d: "denoise_fn example_model [[1], [- 3]] l example_octree None = [[1 / 2], [- 3 / 2]]" for l
    by (simp add: example_model_def example_denoiser_def tmap_def)
  have l1: "log_snr example_model 1 = - 10" and l2: "log_snr example_model (1 / 2) = 0"
    by (simp_all add: example_model_def example_schedule_def)
  show ?thesis
    using h1 h2 h3 ddpm_posterior_mean_variance [OF h1 h2 h3, where tn = "1 / 2"]
    by (simp add: Let_def split_def d l1 l2 expm1_def)
qed



section \<open>The sampling entry point\<close>

text \<open>
  Claim C9. \<open>sample\<close> draws a standard Gaussian field of the shape of the reference field
  (the next draws of the generator, row by row), runs the DDIM sampler on it when
  \<open>use_ddim\<close> is set and the DDPM sampler otherwise, handing on the octree, the number
  of steps and the truncation index, and returns what that sampler returns. Two reference
  fields of one shape give the same result: the values of the reference field play no part.
\<close>

theorem sample_dispatch:
  "sample M data oct use_ddim steps ti v g =
     (if use_ddim
      then ddim_sample M (fst (randn_like data g)) oct steps ti v (snd (randn_like data g))
      else ddpm_sample M (fst (randn_like data g)) oct steps ti v (snd (randn_like data g))) \<and>
   shape (fst (randn_like data g)) = shape data \<and>
   concat (fst (randn_like data g)) = stake (sum_list (shape data)) (normal_src g) \<and>
   (shape data' = shape data \<longrightarrow>
      sample M data' oct use_ddim steps ti v g = sample M data oct use_ddim steps ti v g)"
  by (simp add: sample_def Let_def split_def randn_like_shape randn_like_values
        randn_like_cong [of data' data])

theorem sample_dispatch_witness:
  "shape [[5], [7]] = shape [[1], [- 3]] \<and>
   sample example_model [[5], [7]] example_octree True 2 0 False example_rng =
   sample example_model [[1], [- 3]] example_octree True 2 0 False example_rng"
proof -
  have h: "shape [[5], [7]] = shape [[1], [- 3]]" by (simp add: shape_def)
  show ?thesis
    using h sample_dispatch [where data' = "[[5], [7]]" and data = "[[1], [- 3]]"
            and M = example_model and oct = example_octree and use_ddim = True and steps = 2
            and ti = 0 and v = False and g = example_rng]
    by blast
qed

section \<open>Forward corruption\<close>

lemma mask_rows_batch:
  "length bid = length x \<Longrightarrow>
   mask_rows x (map (\<lambda>b. b = i) bid) = Inr (map fst (filter (\<lambda>z. snd z = i) (zip x bid)))"
  by (simp add: mask_rows_def zip_map2 filter_map comp_def split_def)

lemma tag_selected: "map ((\<lambda>r. (r, i)) \<circ> fst) (filter (\<lambda>z. snd z = i) zs) = filter (\<lambda>z. snd z = i) zs"
  by (induction zs) auto

lemma corrupt_rows_append:
  "corrupt_rows nl (xs @ ys) s =
     (fst (corrupt_rows nl xs s) @ fst (corrupt_rows nl ys (snd (corrupt_rows nl xs s))),
      snd (corrupt_rows nl ys (snd (corrupt_rows nl xs s))))"
  by (induction xs arbitrary: s) (simp_all add: split_def)

lemma block_as_rows:
  "tmap2 (\<lambda>f n. f * fst (log_snr_to_alpha_sigma (nl ! i)) + snd (log_snr_to_alpha_sigma (nl ! i)) * n)
      feature (fst (fill_rows (shape feature) s))
     = fst (corrupt_rows nl (map (\<lambda>r. (r, i)) feature) s) \<and>
   snd (fill_rows (shape feature) s) = snd (corrupt_rows nl (map (\<lambda>r. (r, i)) feature) s)"
  by (induction feature arbitrary: s) (simp_all add: tmap2_def shape_def split_def Let_def)

lemma corrupt_loop_rows:
  assumes len: "length bid = length x"
  shows "\<exists>blocks. corrupt_loop x bid nl is g =
            Inr (blocks, g\<lparr>normal_src := snd (corrupt_rows nl
                   (concat (map (\<lambda>i. filter (\<lambda>z. snd z = i) (zip x bid)) is)) (normal_src g))\<rparr>) \<and>
          length blocks = length is \<and>
          concat blocks = fst (corrupt_rows nl
                   (concat (map (\<lambda>i. filter (\<lambda>z. snd z = i) (zip x bid)) is)) (normal_src g))"
proof (induction "is" arbitrary: g)
  case Nil
  show ?case by simp
next
  case (Cons i "is")
  let ?sel = "filter (\<lambda>z. snd z = i) (zip x bid)"
  let ?feature = "map fst ?sel"
  let ?g' = "snd (randn_like ?feature g)"
  have g': "?g' = g\<lparr>normal_src := snd (corrupt_rows nl ?sel (normal_src g))\<rparr>"
    using block_as_rows [of nl i ?feature "normal_src g"]
    by (simp add: randn_like_def split_def Let_def tag_selected)
  have blk: "tmap2 (\<lambda>f n. f * fst (log_snr_to_alpha_sigma (nl ! i))
                + snd (log_snr_to_alpha_sigma (nl ! i)) * n) ?feature (fst (randn_like ?feature g))
             = fst (corrupt_rows nl ?sel (normal_src g))"
    using block_as_rows [of nl i ?feature "normal_src g"]
    by (simp add: randn_like_def split_def Let_def tag_selected)
  obtain blocks where
    b1: "corrupt_loop x bid nl is ?g' =
            Inr (blocks, ?g'\<lparr>normal_src := snd (corrupt_rows nl
                   (concat (map (\<lambda>i. filter (\<lambda>z. snd z = i) (zip x bid)) is)) (normal_src ?g'))\<rparr>)"
    and b2: "length blocks = length is"
    and b3: "concat blocks = fst (corrupt_rows nl
                   (concat (map (\<lambda>i. filter (\<lambda>z. snd z = i) (zip x bid)) is)) (normal_src ?g'))"
    using Cons.IH [of ?g'] by blast
  have ns: "normal_src ?g' = snd (corrupt_rows nl ?sel (normal_src g))"
    by (simp add: g')
  show ?case
    using b1 b2 b3 blk
    by (simp add: mask_rows_batch [OF len] split_def Let_def corrupt_rows_append ns)
       (simp add: g')
qed

lemma split_sorted:
  "sorted (map snd zs) \<Longrightarrow>
   filter (\<lambda>z. snd z < (b::nat)) zs @ filter (\<lambda>z. b \<le> snd z) zs = zs"
proof (induction zs)
  case Nil
  show ?case by simp
next
  case (Cons z zs)
  show ?case
  proof (cases "snd z < b")
    case True
    then show ?thesis using Cons by simp
  next
    case False
    then have "\<forall>y\<in>set (z # zs). b \<le> snd y" using Cons.prems by auto
    then have "filter (\<lambda>z. snd z < b) (z # zs) = []" and "filter (\<lambda>z. b \<le> snd z) (z # zs) = z # zs"
      by (auto simp: filter_empty_conv filter_id_conv not_less)
    then show ?thesis by simp
  qed
qed

lemma grouped_sorted:
  "sorted (map snd zs) \<Longrightarrow> \<forall>z\<in>set zs. snd z < b \<Longrightarrow> grouped b zs = zs"
proof (induction b arbitrary: zs)
  case 0
  then show ?case by (cases zs) (auto simp: grouped_def)
next
  case (Suc b)
  let ?lo = "filter (\<lambda>z. snd z < b) zs"
  have lo: "grouped b ?lo = ?lo"
    using Suc.prems(1) by (intro Suc.IH) (simp_all add: sorted_filter)
  have same: "map (\<lambda>i. filter (\<lambda>z. snd z = i) zs) [0..<b] = map (\<lambda>i. filter (\<lambda>z. snd z = i) ?lo) [0..<b]"
    by (rule map_cong) (auto intro: filter_cong)
  have top: "filter (\<lambda>z. snd z = b) zs = filter (\<lambda>z. b \<le> snd z) zs"
    using Suc.prems(2) by (intro filter_cong) auto
  have "grouped (Suc b) zs = grouped b ?lo @ filter (\<lambda>z. snd z = b) zs"
    by (simp add: grouped_def same)
  then show ?case using lo top split_sorted [OF Suc.prems(1), of b] by simp
qed

lemma below_split:
  "length (filter (\<lambda>z. snd z < (b::nat)) zs) + length (filter (\<lambda>z. snd z = b) zs)
     = length (filter (\<lambda>z. snd z < Suc b) zs)"
  by (induction zs) auto

lemma length_grouped_below: "length (grouped b zs) = length (filter (\<lambda>z. snd z < b) zs)"
proof (induction b)
  case 0
  show ?case by (simp add: grouped_def)
next
  case (Suc b)
  have "length (grouped (Suc b) zs) = length (grouped b zs) + length (filter (\<lambda>z. snd z = b) zs)"
    by (simp add: grouped_def)
  then show ?case using Suc below_split [of b zs] by simp
qed

lemma length_grouped: "\<forall>z\<in>set zs. snd z < b \<Longrightarrow> length (grouped b zs) = length zs"
  by (simp add: length_grouped_below)

lemma set_grouped: "set (grouped b zs) \<subseteq> set zs"
  by (auto simp: grouped_def)

lemma corrupt_rows_shape: "shape (fst (corrupt_rows nl zs s)) = map (\<lambda>z. length (fst z)) zs"
  by (induction zs arbitrary: s) (simp_all add: shape_def split_def)

lemma corrupt_rows_zip:
  "length bid = length x \<Longrightarrow>
   fst (corrupt_rows nl (zip x bid) s) = noise_rows nl x bid (fst (fill_rows (shape x) s)) \<and>
   snd (corrupt_rows nl (zip x bid) s) = snd (fill_rows (shape x) s)"
  by (induction bid x arbitrary: s rule: list_induct2)
     (simp_all add: noise_rows_def shape_def split_def Let_def)

lemma forward_corruption_grouped:
  assumes b: "0 < batch_size oct"
    and len: "length (batch_id oct (depth oct) True) = length x"
  shows "forward_corruption M x oct g =
     Inr (fst (corrupt_rows (map (log_snr M) (stake (batch_size oct) (uniform_src g)))
                 (grouped (batch_size oct) (zip x (batch_id oct (depth oct) True))) (normal_src g)),
          map (log_snr M) (stake (batch_size oct) (uniform_src g)),
          \<lparr> uniform_src = sdrop (batch_size oct) (uniform_src g),
            normal_src = snd (corrupt_rows (map (log_snr M) (stake (batch_size oct) (uniform_src g)))
                 (grouped (batch_size oct) (zip x (batch_id oct (depth oct) True))) (normal_src g)) \<rparr>)"
proof -
  let ?nl = "map (log_snr M) (stake (batch_size oct) (uniform_src g))"
  let ?g1 = "g\<lparr>uniform_src := sdrop (batch_size oct) (uniform_src g)\<rparr>"
  obtain blocks where
    b1: "corrupt_loop x (batch_id oct (depth oct) True) ?nl [0..<batch_size oct] ?g1 =
           Inr (blocks, ?g1\<lparr>normal_src := snd (corrupt_rows ?nl
                   (grouped (batch_size oct) (zip x (batch_id oct (depth oct) True))) (normal_src ?g1))\<rparr>)"
    and b2: "length blocks = length [0..<batch_size oct]"
    and b3: "concat blocks = fst (corrupt_rows ?nl
                   (grouped (batch_size oct) (zip x (batch_id oct (depth oct) True))) (normal_src ?g1))"
    using corrupt_loop_rows [OF len, of ?nl "[0..<batch_size oct]" ?g1] unfolding grouped_def by blast
  have ne: "blocks \<noteq> []" using b b2 by auto
  show ?thesis
    using b1 b3 ne
    by (simp add: forward_corruption_def uniform_inplace_def Let_def cat_def)
qed

lemma stake_sconst: "stake n (sconst x) = replicate n x"
  by (induction n) (simp_all del: stake_siterate)

lemma sdrop_sconst: "sdrop n (sconst x) = sconst x"
  by (induction n) (simp_all del: sdrop_siterate)

lemma fill_rows_sconst: "fill_rows ns (sconst x) = (map (\<lambda>n. replicate n x) ns, sconst x)"
  by (induction ns) (simp_all only: fill_rows.simps stake_sconst sdrop_sconst Let_def split_conv list.map)

lemma sigmoid_zero: "sigmoid 0 = 1 / 2"
  by (simp add: sigmoid_def)

lemma alpha_sigma_zero: "log_snr_to_alpha_sigma 0 = (sqrt (1 / 2), sqrt (1 / 2))"
  by (simp add: log_snr_to_alpha_sigma_def sigmoid_zero)

text \<open>The sample generator returns 1/2 for every uniform draw and 0 for every Gaussian one.\<close>

lemma example_rng_draws:
  "stake n (uniform_src example_rng) = replicate n (1 / 2)"
  "uniform_inplace n example_rng = (replicate n (1 / 2), example_rng)"
  "randn_like x example_rng = (map (\<lambda>r. replicate (length r) 0) x, example_rng)"
proof -
  have u: "uniform_src example_rng = sconst (1 / 2)" and n: "normal_src example_rng = sconst 0"
    by (simp_all only: example_rng_def rng.simps)
  have keep_u: "example_rng\<lparr>uniform_src := sconst (1 / 2)\<rparr> = example_rng"
    and keep_n: "example_rng\<lparr>normal_src := sconst 0\<rparr> = example_rng"
    by (simp_all only: example_rng_def rng.simps)
  show "stake n (uniform_src example_rng) = replicate n (1 / 2)"
    by (simp only: u stake_sconst)
  show "uniform_inplace n example_rng = (replicate n (1 / 2), example_rng)"
    by (simp only: uniform_inplace_def u stake_sconst sdrop_sconst keep_u)
  show "randn_like x example_rng = (map (\<lambda>r. replicate (length r) 0) x, example_rng)"
    by (simp only: randn_like_def n fill_rows_sconst Let_def split_conv keep_n shape_def map_map comp_def)
qed

text \<open>
  Claim C5, as amended. For an octree with at least one batch element whose batch indices
  at the finest depth are one per row of \<open>x_start\<close> and below the batch size, forward
  corruption returns, batch element after batch element, the rows of that element, each
  as \<open>feature * alpha_i + sigma_i * noise\<close> with the \<open>alpha_i\<close> and \<open>sigma_i\<close> of the
  sampled time of the element and standard Gaussian noise of its shape; the result has as
  many rows as \<open>x_start\<close>. When the batch indices are non-decreasing (the rows of a batch
  element lie together, the elements in batch order), that is every row of \<open>x_start\<close>
  noised at its own place: the row order is the one of \<open>x_start\<close>.
\<close>

theorem forward_corruption_batch_ordered:
  assumes b: "0 < batch_size oct"
    and len: "length (batch_id oct (depth oct) True) = length x"
    and ids: "\<forall>k\<in>set (batch_id oct (depth oct) True). k < batch_size oct"
  shows "(let bid = batch_id oct (depth oct) True;
              nl = map (log_snr M) (stake (batch_size oct) (uniform_src g));
              zs = grouped (batch_size oct) (zip x bid);
              x' = map fst zs
          in forward_corruption M x oct g =
               Inr (noise_rows nl x' (map snd zs) (fst (fill_rows (shape x') (normal_src g))),
                    nl,
                    \<lparr> uniform_src = sdrop (batch_size oct) (uniform_src g),
                      normal_src = sdrop (sum_list (shape x')) (normal_src g) \<rparr>) \<and>
             length x' = length x \<and>
             (sorted bid \<longrightarrow>
                x' = x \<and>
                forward_corruption M x oct g =
                  Inr (rowwise_corruption M x oct g,
                       nl,
                       \<lparr> uniform_src = sdrop (batch_size oct) (uniform_src g),
                         normal_src = sdrop (sum_list (shape x)) (normal_src g) \<rparr>) \<and>
                shape (rowwise_corruption M x oct g) = shape x))"
proof -
  let ?bid = "batch_id oct (depth oct) True"
  let ?nl = "map (log_snr M) (stake (batch_size oct) (uniform_src g))"
  let ?zs = "grouped (batch_size oct) (zip x ?bid)"
  let ?x' = "map fst ?zs"
  have below: "\<forall>z\<in>set (zip x ?bid). snd z < batch_size oct"
    using ids by (auto dest: set_zip_rightD)
  have lx: "length ?x' = length x" using below len by (simp add: length_grouped)
  have rows: "fst (corrupt_rows ?nl ?zs (normal_src g))
                = noise_rows ?nl ?x' (map snd ?zs) (fst (fill_rows (shape ?x') (normal_src g)))"
    and rest: "snd (corrupt_rows ?nl ?zs (normal_src g))
                = sdrop (sum_list (shape ?x')) (normal_src g)"
    using corrupt_rows_zip [of "map snd ?zs" ?x' ?nl "normal_src g"]
    by (simp_all add: zip_map_fst_snd fill_rows_rest)
  have general: "forward_corruption M x oct g =
      Inr (noise_rows ?nl ?x' (map snd ?zs) (fst (fill_rows (shape ?x') (normal_src g))),
           ?nl,
           \<lparr> uniform_src = sdrop (batch_size oct) (uniform_src g),
             normal_src = sdrop (sum_list (shape ?x')) (normal_src g) \<rparr>)"
    using forward_corruption_grouped [OF b len, of M g] by (simp only: rows rest)
  have ordered: "?x' = x \<and>
      forward_corruption M x oct g =
        Inr (rowwise_corruption M x oct g, ?nl,
             \<lparr> uniform_src = sdrop (batch_size oct) (uniform_src g),
               normal_src = sdrop (sum_list (shape x)) (normal_src g) \<rparr>) \<and>
      shape (rowwise_corruption M x oct g) = shape x" if srt: "sorted ?bid"
  proof -
    have gr: "?zs = zip x ?bid"
      using srt below len by (intro grouped_sorted) simp_all
    have x': "?x' = x" and bid': "map snd ?zs = ?bid" using len by (simp_all add: gr)
    have rw: "rowwise_corruption M x oct g
                = noise_rows ?nl x ?bid (fst (fill_rows (shape x) (normal_src g)))"
      by (simp add: rowwise_corruption_def Let_def randn_like_def split_def)
    have "shape (fst (corrupt_rows ?nl (zip x ?bid) (normal_src g)))
            = map length (map fst (zip x ?bid))"
      by (simp add: corrupt_rows_shape comp_def)
    then have sh: "shape (rowwise_corruption M x oct g) = shape x"
      using corrupt_rows_zip [OF len, of ?nl "normal_src g"] len by (simp add: rw shape_def)
    show ?thesis using general sh x' by (simp add: bid' rw)
  qed
  show ?thesis using general lx ordered by (simp only: Let_def) blast
qed

theorem forward_corruption_batch_ordered_witness:
  "0 < batch_size example_octree \<and>
   length (batch_id example_octree (depth example_octree) True) = length [[1::real], [0]] \<and>
   set (batch_id example_octree (depth example_octree) True) \<subseteq> {..<batch_size example_octree} \<and>
   sorted (batch_id example_octree (depth example_octree) True) \<and>
   forward_corruption example_model [[1], [0]] example_octree example_rng =
     Inr (rowwise_corruption example_model [[1], [0]] example_octree example_rng,
          [0, 0], example_rng) \<and>
   rowwise_corruption example_model [[1], [0]] example_octree example_rng = [[sqrt (1 / 2)], [0]]"
proof -
  have h1: "0 < batch_size example_octree" by (simp add: example_octree_def)
  have h2: "length (batch_id example_octree (depth example_octree) True) = length [[1::real], [0]]"
    by (simp add: example_octree_def)
  have h3: "\<forall>k\<in>set (batch_id example_octree (depth example_octree) True). k < batch_size example_octree"
    by (simp add: example_octree_def)
  have h4: "sorted (batch_id example_octree (depth example_octree) True)"
    by (simp add: example_octree_def)
  have r: "rowwise_corruption example_model [[1], [0]] example_octree example_rng = [[sqrt (1 / 2)], [0]]"
    by (simp add: rowwise_corruption_def noise_rows_def Let_def example_rng_draws alpha_sigma_zero
          example_octree_def example_model_def example_schedule_def)
  have e: "\<lparr> uniform_src = sdrop (batch_size example_octree) (uniform_src example_rng),
             normal_src = sdrop (sum_list (shape [[1], [0]])) (normal_src example_rng) \<rparr> = example_rng"
    by (simp only: example_rng_def rng.simps sdrop_sconst)
  have n: "map (log_snr example_model) (stake (batch_size example_octree) (uniform_src example_rng))
             = [0, 0]"
    by (simp add: example_rng_draws example_octree_def example_model_def example_schedule_def
          eval_nat_numeral)
  have "forward_corruption example_model [[1], [0]] example_octree example_rng =
     Inr (rowwise_corruption example_model [[1], [0]] example_octree example_rng,
          map (log_snr example_model) (stake (batch_size example_octree) (uniform_src example_rng)),
          \<lparr> uniform_src = sdrop (batch_size example_octree) (uniform_src example_rng),
            normal_src = sdrop (sum_list (shape [[1], [0]])) (normal_src example_rng) \<rparr>)"
    using h4 forward_corruption_batch_ordered [OF h1 h2 h3, of example_model example_rng]
    unfolding Let_def by (elim conjE impE) assumption+
  then have "forward_corruption example_model [[1], [0]] example_octree example_rng =
     Inr (rowwise_corruption example_model [[1], [0]] example_octree example_rng,
          [0, 0], example_rng)"
    by (simp only: e n)
  then show ?thesis using h1 h2 h3 h4 r by auto
qed

text \<open>
  Claim C5 as stated fails when the rows of a batch element do not lie together. With
  batch indices 0, 1, 0 the code returns the rows of the first shape first: the noised
  second row of \<open>x_start\<close> comes last, where the claim has it in second place.
\<close>

theorem forward_corruption_row_order_counterexample:
  "forward_corruption example_model [[0], [1], [0]] interleaved_octree example_rng =
     Inr ([[0], [0], [sqrt (1 / 2)]], [0, 0], example_rng) \<and>
   rowwise_corruption example_model [[0], [1], [0]] interleaved_octree example_rng =
     [[0], [sqrt (1 / 2)], [0]] \<and>
   [[0], [0], [sqrt (1 / 2)]] \<noteq> [[0], [sqrt (1 / 2)], [0::real]]"
proof -
  have code: "forward_corruption example_model [[0], [1], [0]] interleaved_octree example_rng =
     Inr ([[0], [0], [sqrt (1 / 2)]], [0, 0], example_rng)"
    by (simp add: forward_corruption_def interleaved_octree_def example_rng_draws
          alpha_sigma_zero Let_def mask_rows_def cat_def tmap2_def example_model_def
          example_schedule_def upt_rec eval_nat_numeral)
  have claim: "rowwise_corruption example_model [[0], [1], [0]] interleaved_octree example_rng =
     [[0], [sqrt (1 / 2)], [0]]"
    by (simp add: rowwise_corruption_def noise_rows_def interleaved_octree_def example_rng_draws
          alpha_sigma_zero Let_def example_model_def example_schedule_def eval_nat_numeral)
  have "sqrt (1 / 2) \<noteq> (0::real)" by simp
  then show ?thesis using code claim by simp
qed

section \<open>Training loss\<close>

lemma loss_loop_means:
  "length bid = length sdf \<Longrightarrow>
   loss_loop sdf bid is =
     Inr (map (\<lambda>i. tensor_mean (map fst (filter (\<lambda>z. snd z = i) (zip sdf bid)))) is)"
  by (induction "is") (simp_all add: mask_rows_batch)

lemma selected_by_index:
  assumes "length ys = length xs"
  shows "map fst (filter (\<lambda>z. snd z = i) (zip xs ys)) =
           map (\<lambda>k. xs ! k) (filter (\<lambda>k. ys ! k = i) [0..<length xs])"
proof -
  have "zip xs ys = map (\<lambda>k. (xs ! k, ys ! k)) [0..<length xs]"
    using assms by (intro nth_equalityI) simp_all
  then show ?thesis by (simp add: filter_map comp_def)
qed

lemma is_tensor_shape: "is_tensor c x \<Longrightarrow> shape x = replicate (length x) c"
  by (induction x) (simp_all add: is_tensor_def shape_def)

lemma squares_nonneg: "\<forall>v\<in>set (map2 (\<lambda>p v. (p - v)\<^sup>2) ps (vs::real list)). 0 \<le> v"
  by (auto dest!: set_zip_leftD simp: in_set_zip)

lemma sum_row_squares_nonneg: "0 \<le> sum_list (map2 (\<lambda>p v. (p - v)\<^sup>2) ps (vs::real list))"
  by (rule sum_list_nonneg) (use squares_nonneg in blast)

lemma sum_squares_nonneg:
  "0 \<le> sum_list (concat (map (\<lambda>k. map2 (\<lambda>p v. (p - v)\<^sup>2) (f k) (h k :: real list)) ks))"
proof (induction ks)
  case Nil
  show ?case by simp
next
  case (Cons k ks)
  then show ?case using sum_row_squares_nonneg [of "f k" "h k"] by simp
qed

text \<open>
  Claim C6. For an octree with \<open>b > 0\<close> batch elements, batch indices one per row and
  below \<open>b\<close>, every batch element owning at least one row, a field of \<open>c > 0\<close> channels
  and a network that returns a field of the layout of its input, \<open>training_loss\<close>
  returns a sequence of exactly \<open>b\<close> values; the \<open>i\<close>-th is the mean, over the rows of
  batch element \<open>i\<close> and their channels, of \<open>(pred - x_start)\<^sup>2\<close>, it is a number (the
  selection is not empty) and it is not negative.
\<close>

theorem training_loss_per_element:
  assumes b: "0 < batch_size oct"
    and len: "length (batch_id oct (depth oct) True) = length x"
    and ids: "\<forall>k\<in>set (batch_id oct (depth oct) True). k < batch_size oct"
    and occ: "\<forall>i<batch_size oct. i \<in> set (batch_id oct (depth oct) True)"
    and c: "0 < c" and tx: "is_tensor c x"
    and dn: "\<forall>xt l. shape (denoise_fn M xt l oct None) = shape xt"
  shows "\<exists>x_t nl g' loss.
           forward_corruption M x oct g = Inr (x_t, nl, g') \<and>
           training_loss M x oct g = Inr (loss, g') \<and>
           length loss = batch_size oct \<and>
           (\<forall>i<batch_size oct.
              let sq = concat (map (\<lambda>k. map2 (\<lambda>p v. (p - v)\<^sup>2)
                                          (denoise_fn M x_t nl oct None ! k) (x ! k))
                                (filter (\<lambda>k. batch_id oct (depth oct) True ! k = i) [0..<length x]))
              in sq \<noteq> [] \<and> loss ! i = Some (sum_list sq / real (length sq)) \<and>
                 0 \<le> sum_list sq / real (length sq))"
proof -
  let ?bid = "batch_id oct (depth oct) True"
  let ?B = "batch_size oct"
  let ?nl = "map (log_snr M) (stake ?B (uniform_src g))"
  let ?zs = "grouped ?B (zip x ?bid)"
  let ?xt = "fst (corrupt_rows ?nl ?zs (normal_src g))"
  let ?g' = "\<lparr> uniform_src = sdrop ?B (uniform_src g),
               normal_src = snd (corrupt_rows ?nl ?zs (normal_src g)) \<rparr>"
  let ?pred = "denoise_fn M ?xt ?nl oct None"
  let ?sdf = "tmap2 (\<lambda>p x. (p - x)\<^sup>2) ?pred x"
  let ?loss = "map (\<lambda>i. tensor_mean (map fst (filter (\<lambda>z. snd z = i) (zip ?sdf ?bid)))) [0..<?B]"
  have fc: "forward_corruption M x oct g = Inr (?xt, ?nl, ?g')"
    by (rule forward_corruption_grouped [OF b len])
  have shx: "shape x = replicate (length x) c" by (rule is_tensor_shape [OF tx])
  have "\<forall>z\<in>set (zip x ?bid). snd z < ?B" using ids by (auto dest: set_zip_rightD)
  then have lz: "length ?zs = length x" using len by (simp add: length_grouped)
  have "\<forall>z\<in>set ?zs. length (fst z) = c"
  proof
    fix z assume "z \<in> set ?zs"
    then have "z \<in> set (zip x ?bid)" using set_grouped by blast
    then have "fst z \<in> set x" by (metis prod.collapse set_zip_leftD)
    then show "length (fst z) = c" using tx by (simp add: is_tensor_def list_all_iff)
  qed
  then have "map (\<lambda>z. length (fst z)) ?zs = replicate (length ?zs) c"
    by (simp add: map_replicate_const [symmetric] cong: map_cong)
  then have shxt: "shape ?xt = shape x" by (simp add: corrupt_rows_shape lz shx)
  have shp: "shape ?pred = shape x" using dn shxt by simp
  have shs: "shape ?sdf = shape x" using shape_tmap2 [OF shp] shp by simp
  have ls: "length ?bid = length ?sdf" using shape_eq_length [OF shs] len by simp
  have lp: "length ?pred = length x" by (rule shape_eq_length [OF shp])
  have tl: "training_loss M x oct g = Inr (?loss, ?g')"
    by (simp add: training_loss_def fc Let_def loss_loop_means [OF ls])
  have each: "let sq = concat (map (\<lambda>k. map2 (\<lambda>p v. (p - v)\<^sup>2) (?pred ! k) (x ! k))
                                (filter (\<lambda>k. ?bid ! k = i) [0..<length x]))
              in sq \<noteq> [] \<and> ?loss ! i = Some (sum_list sq / real (length sq)) \<and>
                 0 \<le> sum_list sq / real (length sq)" if i: "i < ?B" for i
  proof -
    let ?ks = "filter (\<lambda>k. ?bid ! k = i) [0..<length x]"
    let ?sq = "concat (map (\<lambda>k. map2 (\<lambda>p v. (p - v)\<^sup>2) (?pred ! k) (x ! k)) ?ks)"
    have sel: "map fst (filter (\<lambda>z. snd z = i) (zip ?sdf ?bid)) = map (\<lambda>k. ?sdf ! k) ?ks"
      using selected_by_index [OF ls, of i] shape_eq_length [OF shs] by simp
    have rows: "map (\<lambda>k. ?sdf ! k) ?ks = map (\<lambda>k. map2 (\<lambda>p v. (p - v)\<^sup>2) (?pred ! k) (x ! k)) ?ks"
      by (rule map_cong) (simp_all add: tmap2_def lp)
    have "?loss ! i = tensor_mean (map fst (filter (\<lambda>z. snd z = i) (zip ?sdf ?bid)))"
      using i by simp
    then have li: "?loss ! i = tensor_mean (map (\<lambda>k. map2 (\<lambda>p v. (p - v)\<^sup>2) (?pred ! k) (x ! k)) ?ks)"
      by (simp only: sel rows)
    obtain k where k: "k < length x" and bk: "?bid ! k = i"
      using occ i len by (auto simp: in_set_conv_nth)
    have "length (x ! k) = c" using tx k by (simp add: is_tensor_def list_all_length)
    moreover have "length (?pred ! k) = length (x ! k)"
      using shape_eq_row [OF shp] k lp by simp
    ultimately have "map2 (\<lambda>p v. (p - v)\<^sup>2) (?pred ! k) (x ! k) \<noteq> []" using c by auto
    moreover have "k \<in> set ?ks" using k bk by simp
    ultimately have ne: "?sq \<noteq> []" by auto
    have "0 \<le> sum_list ?sq" by (rule sum_squares_nonneg)
    then have nn: "0 \<le> sum_list ?sq / real (length ?sq)" by simp
    show ?thesis using ne nn li by (simp add: tensor_mean_def Let_def)
  qed
  have "length ?loss = ?B" by simp
  then show ?thesis using fc tl each by blast
qed

theorem training_loss_per_element_witness:
  "0 < batch_size example_octree \<and>
   length (batch_id example_octree (depth example_octree) True) = length [[1::real], [0]] \<and>
   set (batch_id example_octree (depth example_octree) True) = {..<batch_size example_octree} \<and>
   (0::nat) < 1 \<and> is_tensor 1 [[1], [0]] \<and>
   (\<forall>xt l. shape (denoise_fn example_model xt l example_octree None) = shape xt) \<and>
   (\<exists>loss g'. training_loss example_model [[1], [0]] example_octree example_rng = Inr (loss, g') \<and>
      length loss = batch_size example_octree) \<and>
   training_loss example_model [[1], [0]] example_octree example_rng =
     Inr ([Some ((sqrt (1 / 2) / 2 - 1)\<^sup>2), Some 0], example_rng)"
proof -
  have h1: "0 < batch_size example_octree" by (simp add: example_octree_def)
  have h2: "length (batch_id example_octree (depth example_octree) True) = length [[1::real], [0]]"
    by (simp add: example_octree_def)
  have h3: "\<forall>k\<in>set (batch_id example_octree (depth example_octree) True). k < batch_size example_octree"
    by (simp add: example_octree_def)
  have h4: "\<forall>i<batch_size example_octree. i \<in> set (batch_id example_octree (depth example_octree) True)"
    by (auto simp: example_octree_def less_Suc_eq numeral_2_eq_2)
  have h5: "(0::nat) < 1" by simp
  have h6: "is_tensor 1 [[1], [0]]" by (simp add: is_tensor_def)
  have h7: "\<forall>xt l. shape (denoise_fn example_model xt l example_octree None) = shape xt"
    by (simp add: example_model_def example_denoiser_def shape_tmap)
  have ex: "\<exists>loss g'. training_loss example_model [[1], [0]] example_octree example_rng = Inr (loss, g') \<and>
      length loss = batch_size example_octree"
    using training_loss_per_element [OF h1 h2 h3 h4 h5 h6 h7, of example_rng] by blast
  have fc: "forward_corruption example_model [[1], [0]] example_octree example_rng =
     Inr ([[sqrt (1 / 2)], [0]], [0, 0], example_rng)"
    by (simp add: forward_corruption_def example_octree_def example_rng_draws alpha_sigma_zero
          Let_def mask_rows_def cat_def tmap2_def example_model_def example_schedule_def
          upt_rec eval_nat_numeral)
  have d: "denoise_fn example_model [[sqrt (1 / 2)], [0]] l oct None = [[sqrt (1 / 2) / 2], [0]]" for l oct
    by (simp add: example_model_def example_denoiser_def tmap_def)
  have v: "training_loss example_model [[1], [0]] example_octree example_rng =
     Inr ([Some ((sqrt (1 / 2) / 2 - 1)\<^sup>2), Some 0], example_rng)"
    by (simp add: training_loss_def fc d Let_def)
       (simp add: example_octree_def mask_rows_def tmap2_def tensor_mean_def upt_rec)
  have h34: "set (batch_id example_octree (depth example_octree) True) = {..<batch_size example_octree}"
    using h3 h4 by auto
  show ?thesis using h1 h2 h34 h5 h6 h7 ex v by blast
qed

end
